theory Spec2Isabelle
  imports Main "HOL-Library.AList" "HOL-Library.Sublist"
begin

section \<open>JavaScript strings\<close>

text \<open>
  A JavaScript string is a sequence of UTF-16 code units; it is modelled as the list of
  its code units, each a natural number below 65536. Literals of the source are written
  \<open>str ''...''\<close>.
\<close>

type_synonym jsstring = "nat list"

definition str :: "string \<Rightarrow> jsstring" where
  "str s = map of_char s"

text \<open>
  The code units that \<open>String.prototype.trim\<close> strips and that \<open>\s\<close> matches in a
  regular expression: WhiteSpace (TAB, VT, FF, SP, NBSP, ZWNBSP and the space separators)
  and LineTerminator (LF, CR, LS, PS).
\<close>

definition is_space :: "nat \<Rightarrow> bool" where
  "is_space c =
     (c = 9 \<or> c = 10 \<or> c = 11 \<or> c = 12 \<or> c = 13 \<or> c = 32 \<or> c = 160 \<or> c = 5760 \<or>
      (8192 \<le> c \<and> c \<le> 8202) \<or> c = 8232 \<or> c = 8233 \<or> c = 8239 \<or> c = 8287 \<or>
      c = 12288 \<or> c = 65279)"

definition trim :: "jsstring \<Rightarrow> jsstring" where
  "trim s = rev (dropWhile is_space (rev (dropWhile is_space s)))"

text \<open>\<open>s.split(sep)\<close> for a separator of one code unit: never the empty list.\<close>

fun js_split :: "nat \<Rightarrow> jsstring \<Rightarrow> jsstring list" where
  "js_split sep [] = [[]]"
| "js_split sep (c # cs) =
     (if c = sep then [] # js_split sep cs
      else (case js_split sep cs of
              [] \<Rightarrow> [[c]]
            | p # ps \<Rightarrow> (c # p) # ps))"

fun js_join :: "jsstring \<Rightarrow> jsstring list \<Rightarrow> jsstring" where
  "js_join sep [] = []"
| "js_join sep [x] = x"
| "js_join sep (x # y # zs) = x @ sep @ js_join sep (y # zs)"

text \<open>
  \<open>new Set(iterable)\<close> followed by spreading: the elements in insertion order, an
  element already present is not added again.
\<close>

fun set_add_all :: "'a list \<Rightarrow> 'a list \<Rightarrow> 'a list" where
  "set_add_all seen [] = seen"
| "set_add_all seen (x # xs) =
     set_add_all (if x \<in> set seen then seen else seen @ [x]) xs"

definition new_Set :: "'a list \<Rightarrow> 'a list" where
  "new_Set xs = set_add_all [] xs"

text \<open>Array index \<open>xs[i]\<close>: \<open>undefined\<close> (here \<open>None\<close>) out of range.\<close>

definition js_index :: "'a list \<Rightarrow> nat \<Rightarrow> 'a option" where
  "js_index xs i = (if i < length xs then Some (xs ! i) else None)"

definition ascii_lower :: "nat \<Rightarrow> nat" where
  "ascii_lower c = (if 65 \<le> c \<and> c \<le> 90 then c + 32 else c)"

section \<open>Exceptions\<close>

text \<open>
  What the code can throw: \<open>new Error(message)\<close> of the source itself, a \<open>TypeError\<close> of
  the engine (its message is engine-specific and left out), and a rejection by the
  platform (a failed \<open>fetch\<close>, store access or body read), which carries the text that
  \<open>String(e)\<close> gives for it.
\<close>

datatype exn = Error jsstring | TypeError | Platform jsstring

fun exn_to_string :: "exn \<Rightarrow> jsstring" where
  "exn_to_string (Error m) = (if m = [] then str ''Error'' else str ''Error: '' @ m)"
| "exn_to_string TypeError = str ''TypeError''"
| "exn_to_string (Platform s) = s"

section \<open>Headers\<close>

text \<open>
  A \<open>Headers\<close> object: names are case-insensitive and kept in lower case, \<open>get\<close> is
  \<open>null\<close> (here \<open>None\<close>) for an absent name. \<open>set\<close> first strips HTTP white space (tab,
  line feed, carriage return, space) from both ends of the value, throws a \<open>TypeError\<close>
  when what is left holds NUL, line feed, carriage return or a code unit above 255, and
  otherwise replaces the value of the name. The names the source sets are literal tokens.
\<close>

type_synonym headers = "(jsstring \<times> jsstring) list"

definition is_http_ws :: "nat \<Rightarrow> bool" where
  "is_http_ws c = (c = 9 \<or> c = 10 \<or> c = 13 \<or> c = 32)"

definition header_normalize :: "jsstring \<Rightarrow> jsstring" where
  "header_normalize v = rev (dropWhile is_http_ws (rev (dropWhile is_http_ws v)))"

definition header_value_ok :: "jsstring \<Rightarrow> bool" where
  "header_value_ok v = list_all (\<lambda>c. c \<noteq> 0 \<and> c \<noteq> 10 \<and> c \<noteq> 13 \<and> c \<le> 255) v"

definition headers_set :: "jsstring \<Rightarrow> jsstring \<Rightarrow> headers \<Rightarrow> exn + headers" where
  "headers_set name v h =
     (let v' = header_normalize v
      in if header_value_ok v' then Inr (AList.update (map ascii_lower name) v' h)
         else Inl TypeError)"

definition headers_get :: "headers \<Rightarrow> jsstring \<Rightarrow> jsstring option" where
  "headers_get h name = map_of h (map ascii_lower name)"

section \<open>Configuration and constants\<close>

record Env =
  CLAUDE_OAUTH_CLIENT_ID :: jsstring
  CLAUDE_ACCESS_TOKEN :: jsstring
  CLAUDE_REFRESH_TOKEN :: jsstring
  PROXY_SECRET :: jsstring

definition ANTHROPIC_API_URL :: jsstring where
  "ANTHROPIC_API_URL = str ''https://api.anthropic.com/v1/messages''"

definition ANTHROPIC_API_VERSION :: jsstring where
  "ANTHROPIC_API_VERSION = str ''2023-06-01''"

definition OAUTH_TOKEN_URL :: jsstring where
  "OAUTH_TOKEN_URL = str ''https://console.anthropic.com/v1/oauth/token''"

definition CLAUDE_CODE_VERSION :: jsstring where
  "CLAUDE_CODE_VERSION = str ''2.1.2''"

definition REQUIRED_BETA_FLAGS :: "jsstring list" where
  "REQUIRED_BETA_FLAGS = [str ''oauth-2025-04-20'', str ''interleaved-thinking-2025-05-14'']"

definition CLAUDE_CODE_SYSTEM_PROMPT :: jsstring where
  "CLAUDE_CODE_SYSTEM_PROMPT =
     str ''You are Claude Code, Anthropic's official CLI for Claude.''"

definition TOOL_PREFIX :: jsstring where
  "TOOL_PREFIX = str ''mcp_''"

section \<open>The request authenticator\<close>

record Request =
  req_method :: jsstring
  req_headers :: headers

text \<open>
  \<open>validateAuth\<close>: the \<open>Authorization\<close> header, when present and non-empty, is split
  at every space; the first two pieces are compared with \<open>Bearer\<close> and the secret.
  Otherwise the \<open>x-api-key\<close> header is compared with the secret.
\<close>

definition validateAuth :: "'a Request_scheme \<Rightarrow> Env \<Rightarrow> bool" where
  "validateAuth request env =
     (let authHeader = headers_get (req_headers request) (str ''Authorization'');
          bearer =
            (case authHeader of
               None \<Rightarrow> False
             | Some h \<Rightarrow>
                 h \<noteq> [] \<and>
                 (let parts = js_split 32 h;
                      type = js_index parts 0;
                      token = js_index parts 1
                  in type = Some (str ''Bearer'') \<and> token = Some (PROXY_SECRET env)))
      in if bearer then True
         else (let apiKey = headers_get (req_headers request) (str ''x-api-key'')
               in apiKey = Some (PROXY_SECRET env)))"

section \<open>The upstream header builder\<close>

definition incomingBetasList :: "jsstring option \<Rightarrow> jsstring list" where
  "incomingBetasList incomingBeta =
     (case incomingBeta of
        None \<Rightarrow> []
      | Some b \<Rightarrow>
          if b = [] then []
          else filter (\<lambda>f. f \<noteq> []) (map trim (js_split 44 b)))"

definition mergedBetas :: "jsstring option \<Rightarrow> jsstring" where
  "mergedBetas incomingBeta =
     js_join (str '','') (new_Set (REQUIRED_BETA_FLAGS @ incomingBetasList incomingBeta))"

definition buildHeaders :: "jsstring \<Rightarrow> jsstring \<Rightarrow> jsstring option \<Rightarrow> exn + headers" where
  "buildHeaders accessToken version incomingBeta =
     (case headers_set (str ''Authorization'') (str ''Bearer '' @ accessToken) [] of
        Inl e \<Rightarrow> Inl e
      | Inr h1 \<Rightarrow>
     (case headers_set (str ''Content-Type'') (str ''application/json'') h1 of
        Inl e \<Rightarrow> Inl e
      | Inr h2 \<Rightarrow>
     (case headers_set (str ''anthropic-version'') ANTHROPIC_API_VERSION h2 of
        Inl e \<Rightarrow> Inl e
      | Inr h3 \<Rightarrow>
     (case headers_set (str ''anthropic-beta'') (mergedBetas incomingBeta) h3 of
        Inl e \<Rightarrow> Inl e
      | Inr h4 \<Rightarrow>
          headers_set (str ''User-Agent'')
            (str ''claude-cli/'' @ version @ str '' (external, cli)'') h4))))"

text \<open>
  A list of texts written with a comma between neighbours, in terms of \<open>concat\<close> alone:
  the shape of an incoming \<open>anthropic-beta\<close> value and of the value the builder sets.
\<close>

abbreviation comma_sep :: "jsstring list \<Rightarrow> jsstring" where
  "comma_sep xs \<equiv> (case xs of [] \<Rightarrow> [] | x # rest \<Rightarrow> x @ concat (map ((#) 44) rest))"

text \<open>
  The authenticator as the specification words it, for comparison with \<open>validateAuth\<close>:
  authorized exactly when the \<open>Authorization\<close> header is \<open>Bearer\<close>, a space and the
  shared secret, or the \<open>x-api-key\<close> header is the shared secret.
\<close>

definition isAuthorized_spec :: "'a Request_scheme \<Rightarrow> Env \<Rightarrow> bool" where
  "isAuthorized_spec request env =
     (headers_get (req_headers request) (str ''Authorization'') =
        Some (str ''Bearer '' @ PROXY_SECRET env) \<or>
      headers_get (req_headers request) (str ''x-api-key'') = Some (PROXY_SECRET env))"

section \<open>Numbers as text\<close>

text \<open>The decimal digits of a natural number, as a template literal prints it.\<close>

fun show_nat :: "nat \<Rightarrow> jsstring" where
  "show_nat n = (if n < 10 then [48 + n] else show_nat (n div 10) @ [48 + n mod 10])"

declare show_nat.simps [simp del]

section \<open>JSON values\<close>

text \<open>
  The value \<open>request.json()\<close> yields. A number is represented by the text JavaScript
  prints for it (\<open>''5''\<close>, \<open>''1.5''\<close>, zero is \<open>''0''\<close>): the program only tests a number
  for truthiness and interpolates it into a string. An object is the list of its own
  properties in enumeration order. The value \<open>undefined\<close> of an absent property is
  \<open>None\<close>; a property set to \<open>undefined\<close> is represented by its absence, as
  \<open>JSON.stringify\<close> drops it.
\<close>

datatype json =
    JNull
  | JBool bool
  | JNum jsstring
  | JStr jsstring
  | JArr "json list"
  | JObj "(jsstring \<times> json) list"

fun truthy :: "json \<Rightarrow> bool" where
  "truthy JNull = False"
| "truthy (JBool b) = b"
| "truthy (JNum n) = (n \<noteq> str ''0'')"
| "truthy (JStr s) = (s \<noteq> [])"
| "truthy (JArr _) = True"
| "truthy (JObj _) = True"

definition truthy_opt :: "json option \<Rightarrow> bool" where
  "truthy_opt v = (case v of None \<Rightarrow> False | Some x \<Rightarrow> truthy x)"

text \<open>
  Reading one of the properties the program reads (\<open>system\<close>, \<open>tools\<close>, \<open>messages\<close>,
  \<open>content\<close>, \<open>type\<close>, \<open>text\<close>, \<open>name\<close>, \<open>stream\<close>): a \<open>TypeError\<close> on \<open>null\<close>, an own
  property of an object, \<open>undefined\<close> on every other value (no prototype has a property
  of these names).
\<close>

fun js_get :: "json \<Rightarrow> jsstring \<Rightarrow> exn + json option" where
  "js_get JNull k = Inl TypeError"
| "js_get (JObj obj) k = Inr (map_of obj k)"
| "js_get v k = Inr None"

text \<open>
  \<open>ToString\<close> of a value inside a template literal. An array prints its elements joined
  by commas, \<open>null\<close> elements as the empty string; an object prints \<open>[object Object]\<close>,
  unless it has an own property \<open>toString\<close>, which is never callable in a parsed value
  and makes the conversion a \<open>TypeError\<close>.
\<close>

fun js_to_string :: "json \<Rightarrow> exn + jsstring"
  and js_join_elems :: "json list \<Rightarrow> exn + jsstring" where
  "js_to_string JNull = Inr (str ''null'')"
| "js_to_string (JBool b) = Inr (if b then str ''true'' else str ''false'')"
| "js_to_string (JNum n) = Inr n"
| "js_to_string (JStr s) = Inr s"
| "js_to_string (JArr xs) = js_join_elems xs"
| "js_to_string (JObj obj) =
     (if map_of obj (str ''toString'') \<noteq> None then Inl TypeError
      else Inr (str ''[object Object]''))"
| "js_join_elems [] = Inr []"
| "js_join_elems (x # xs) =
     (case (if x = JNull then Inr [] else js_to_string x) of
        Inl e \<Rightarrow> Inl e
      | Inr s \<Rightarrow>
          (if xs = [] then Inr s
           else (case js_join_elems xs of
                   Inl e \<Rightarrow> Inl e
                 | Inr r \<Rightarrow> Inr (s @ str '','' @ r))))"

text \<open>\<open>xs.map(f)\<close> where \<open>f\<close> may throw: the first exception ends the loop.\<close>

fun map_err :: "('a \<Rightarrow> exn + 'b) \<Rightarrow> 'a list \<Rightarrow> exn + 'b list" where
  "map_err f [] = Inr []"
| "map_err f (x # xs) =
     (case f x of
        Inl e \<Rightarrow> Inl e
      | Inr y \<Rightarrow> (case map_err f xs of Inl e \<Rightarrow> Inl e | Inr ys \<Rightarrow> Inr (y # ys)))"

text \<open>\<open>xs.some(p)\<close> where \<open>p\<close> may throw: stops at the first element that satisfies \<open>p\<close>.\<close>

fun js_some :: "('a \<Rightarrow> exn + bool) \<Rightarrow> 'a list \<Rightarrow> exn + bool" where
  "js_some p [] = Inr False"
| "js_some p (x # xs) =
     (case p x of
        Inl e \<Rightarrow> Inl e
      | Inr b \<Rightarrow> if b then Inr True else js_some p xs)"

text \<open>
  Spreading a value into an object literal, \<open>{...v}\<close>: the own enumerable properties of
  an object, the indexed elements of an array, the indexed code units of a string,
  nothing for \<open>null\<close>, a boolean or a number.
\<close>

fun js_spread :: "json \<Rightarrow> (jsstring \<times> json) list" where
  "js_spread (JObj obj) = obj"
| "js_spread (JArr xs) = zip (map show_nat [0..<length xs]) xs"
| "js_spread (JStr s) = zip (map show_nat [0..<length s]) (map (\<lambda>c. JStr [c]) s)"
| "js_spread v = []"

section \<open>The request transformer\<close>

definition text_block :: "jsstring \<Rightarrow> json" where
  "text_block t = JObj [(str ''type'', JStr (str ''text'')), (str ''text'', JStr t)]"

text \<open>The callback of \<open>some\<close>: \<open>block.text?.startsWith("You are Claude Code")\<close>.\<close>

definition block_has_identity :: "json \<Rightarrow> exn + bool" where
  "block_has_identity block =
     (case js_get block (str ''text'') of
        Inl e \<Rightarrow> Inl e
      | Inr None \<Rightarrow> Inr False
      | Inr (Some JNull) \<Rightarrow> Inr False
      | Inr (Some (JStr t)) \<Rightarrow> Inr (prefix (str ''You are Claude Code'') t)
      | Inr (Some _) \<Rightarrow> Inl TypeError)"

text \<open>
  \<open>injectSystemPrompt\<close>. The module is strict code, so creating the property \<open>system\<close> on
  a boolean, number or string body is a \<open>TypeError\<close>, as is reading it from \<open>null\<close>. On an
  array body the property is created on the array object and is no part of the value.
\<close>

definition normalize_system :: "(jsstring \<times> json) list \<Rightarrow> json" where
  "normalize_system obj =
     (let system0 = map_of obj (str ''system'');
          system1 = (if \<not> truthy_opt system0 then JArr []
                     else (case system0 of Some v \<Rightarrow> v | None \<Rightarrow> JArr []))
      in (case system1 of JStr s \<Rightarrow> JArr [text_block s] | v \<Rightarrow> v))"

definition injectSystemPrompt :: "json \<Rightarrow> exn + json" where
  "injectSystemPrompt body =
     (case body of
        JObj obj \<Rightarrow>
          (case normalize_system obj of
             JArr blocks \<Rightarrow>
               (case js_some block_has_identity blocks of
                  Inl e \<Rightarrow> Inl e
                | Inr hasIdentity \<Rightarrow>
                    Inr (JObj (AList.update (str ''system'')
                           (JArr (if hasIdentity then blocks
                                  else text_block CLAUDE_CODE_SYSTEM_PROMPT # blocks))
                           obj)))
           | _ \<Rightarrow> Inl TypeError)
      | JArr xs \<Rightarrow> Inr (JArr xs)
      | _ \<Rightarrow> Inl TypeError)"

text \<open>The \<open>system\<close> property of a body, and the blocks whose text is the identity preamble.\<close>

definition system_of :: "json \<Rightarrow> json option" where
  "system_of body = (case body of JObj obj \<Rightarrow> map_of obj (str ''system'') | _ \<Rightarrow> None)"

definition is_preamble_block :: "json \<Rightarrow> bool" where
  "is_preamble_block block =
     (js_get block (str ''text'') = Inr (Some (JStr CLAUDE_CODE_SYSTEM_PROMPT)))"

text \<open>
  \<open>s.replace(/pat/g, rep)\<close> for a pattern of literal characters: the matches are found
  from left to right and do not overlap; \<open>canon\<close> maps a code unit before comparison
  (the identity, or lower case for the flag \<open>i\<close>).
\<close>

function replace_all :: "(nat \<Rightarrow> nat) \<Rightarrow> jsstring \<Rightarrow> jsstring \<Rightarrow> jsstring \<Rightarrow> jsstring" where
  "replace_all canon pat rep s =
     (if s = [] \<or> pat = [] then s
      else if map canon (take (length pat) s) = pat
           then rep @ replace_all canon pat rep (drop (length pat) s)
           else hd s # replace_all canon pat rep (tl s))"
  by pat_completeness auto
termination
  by (relation "measure (\<lambda>(canon, pat, rep, s). length s)") (auto simp: neq_Nil_conv)

declare replace_all.simps [simp del]

definition sanitize_text :: "jsstring \<Rightarrow> jsstring" where
  "sanitize_text t =
     replace_all ascii_lower (str ''opencode'') (str ''Claude'')
       (replace_all id (str ''OpenCode'') (str ''Claude Code'') t)"

definition sanitize_item :: "json \<Rightarrow> exn + json" where
  "sanitize_item item =
     (case item of
        JNull \<Rightarrow> Inl TypeError
      | JObj obj \<Rightarrow>
          (if map_of obj (str ''type'') = Some (JStr (str ''text'')) \<and>
              truthy_opt (map_of obj (str ''text''))
           then (case map_of obj (str ''text'') of
                   Some (JStr t) \<Rightarrow>
                     Inr (JObj (AList.update (str ''text'') (JStr (sanitize_text t)) obj))
                 | _ \<Rightarrow> Inl TypeError)
           else Inr item)
      | _ \<Rightarrow> Inr item)"

text \<open>
  One element of \<open>tools\<close>: \<open>{...tool, name: tool.name ? `${TOOL_PREFIX}${tool.name}` : tool.name}\<close>.
\<close>

definition prefix_tool :: "json \<Rightarrow> exn + json" where
  "prefix_tool tool =
     (case js_get tool (str ''name'') of
        Inl e \<Rightarrow> Inl e
      | Inr None \<Rightarrow> Inr (JObj (js_spread tool))
      | Inr (Some n) \<Rightarrow>
          (if truthy n
           then (case js_to_string n of
                   Inl e \<Rightarrow> Inl e
                 | Inr s \<Rightarrow>
                     Inr (JObj (AList.update (str ''name'') (JStr (TOOL_PREFIX @ s))
                                  (js_spread tool))))
           else Inr (JObj (AList.update (str ''name'') n (js_spread tool)))))"

text \<open>One content block of a message.\<close>

definition prefix_block :: "json \<Rightarrow> exn + json" where
  "prefix_block block =
     (case js_get block (str ''type'') of
        Inl e \<Rightarrow> Inl e
      | Inr ty \<Rightarrow>
          (case js_get block (str ''name'') of
             Inl e \<Rightarrow> Inl e
           | Inr None \<Rightarrow> Inr block
           | Inr (Some n) \<Rightarrow>
               (if ty = Some (JStr (str ''tool_use'')) \<and> truthy n
                then (case js_to_string n of
                        Inl e \<Rightarrow> Inl e
                      | Inr s \<Rightarrow>
                          Inr (JObj (AList.update (str ''name'') (JStr (TOOL_PREFIX @ s))
                                       (js_spread block))))
                else Inr block)))"

definition sanitize_message :: "json \<Rightarrow> exn + json" where
  "sanitize_message msg =
     (case js_get msg (str ''content'') of
        Inl e \<Rightarrow> Inl e
      | Inr (Some (JArr blocks)) \<Rightarrow>
          (case map_err prefix_block blocks of
             Inl e \<Rightarrow> Inl e
           | Inr blocks' \<Rightarrow>
               Inr (JObj (AList.update (str ''content'') (JArr blocks') (js_spread msg))))
      | Inr _ \<Rightarrow> Inr msg)"

text \<open>
  \<open>sanitizeBody\<close>: the three steps in the order of the source; each replaces one
  property of the body when that property is an array.
\<close>

definition sanitize_field ::
  "jsstring \<Rightarrow> (json \<Rightarrow> exn + json) \<Rightarrow> (jsstring \<times> json) list \<Rightarrow> exn + (jsstring \<times> json) list" where
  "sanitize_field k f obj =
     (case map_of obj k of
        Some (JArr xs) \<Rightarrow>
          (case map_err f xs of
             Inl e \<Rightarrow> Inl e
           | Inr ys \<Rightarrow> Inr (AList.update k (JArr ys) obj))
      | _ \<Rightarrow> Inr obj)"

definition sanitizeBody :: "json \<Rightarrow> exn + json" where
  "sanitizeBody body =
     (case body of
        JNull \<Rightarrow> Inl TypeError
      | JObj obj \<Rightarrow>
          (case sanitize_field (str ''system'') sanitize_item obj of
             Inl e \<Rightarrow> Inl e
           | Inr obj1 \<Rightarrow>
               (case sanitize_field (str ''tools'') prefix_tool obj1 of
                  Inl e \<Rightarrow> Inl e
                | Inr obj2 \<Rightarrow>
                    (case sanitize_field (str ''messages'') sanitize_message obj2 of
                       Inl e \<Rightarrow> Inl e
                     | Inr obj3 \<Rightarrow> Inr (JObj obj3))))
      | _ \<Rightarrow> Inr body)"

section \<open>The response transformer\<close>

text \<open>
  The regular expression \<open>/"name"\s*:\s*"mcp_([^"]+)"/\<close> tried at the start of a text:
  the captured group and the text after the match. Every quantifier is followed by a
  character outside its class, so the greedy match is the only one.
\<close>

fun strip_prefix :: "jsstring \<Rightarrow> jsstring \<Rightarrow> jsstring option" where
  "strip_prefix [] s = Some s"
| "strip_prefix (p # ps) [] = None"
| "strip_prefix (p # ps) (c # cs) = (if p = c then strip_prefix ps cs else None)"

definition match_name :: "jsstring \<Rightarrow> (jsstring \<times> jsstring) option" where
  "match_name s =
     (case strip_prefix (str ''\"name\"'') s of
        None \<Rightarrow> None
      | Some s1 \<Rightarrow>
          (case strip_prefix (str '':'') (dropWhile is_space s1) of
             None \<Rightarrow> None
           | Some s2 \<Rightarrow>
               (case strip_prefix (str ''\"mcp_'') (dropWhile is_space s2) of
                  None \<Rightarrow> None
                | Some s3 \<Rightarrow>
                    (let g = takeWhile (\<lambda>c. c \<noteq> 34) s3;
                         r = dropWhile (\<lambda>c. c \<noteq> 34) s3
                     in if g \<noteq> [] \<and> r \<noteq> [] then Some (g, tl r) else None))))"

lemma strip_prefix_length: "strip_prefix p s = Some r \<Longrightarrow> length s = length p + length r"
  by (induction p s rule: strip_prefix.induct) (auto split: if_splits)

lemma match_name_shorter:
  assumes "match_name s = Some (g, r)"
  shows "length r < length s"
proof -
  obtain s1 s2 s3 where
    1: "strip_prefix (str ''\"name\"'') s = Some s1" and
    2: "strip_prefix (str '':'') (dropWhile is_space s1) = Some s2" and
    3: "strip_prefix (str ''\"mcp_'') (dropWhile is_space s2) = Some s3" and
    4: "r = tl (dropWhile (\<lambda>c. c \<noteq> 34) s3)"
    using assms by (auto simp: match_name_def Let_def split: option.splits if_splits)
  have "length r \<le> length s3"
    using 4 length_dropWhile_le [of "\<lambda>c. c \<noteq> 34" s3] by simp
  also have "\<dots> \<le> length s2"
    using strip_prefix_length [OF 3] length_dropWhile_le [of is_space s2] by simp
  also have "\<dots> \<le> length s1"
    using strip_prefix_length [OF 2] length_dropWhile_le [of is_space s1] by simp
  also have "\<dots> < length s"
    using strip_prefix_length [OF 1] by (simp add: str_def)
  finally show ?thesis .
qed

text \<open>
  \<open>text.replace(/"name"\s*:\s*"mcp_([^"]+)"/g, '"name": "$1"')\<close>: the matches from left
  to right, each replaced by the field without the prefix, the rest copied.
\<close>

function strip_tool_prefix :: "jsstring \<Rightarrow> jsstring" where
  "strip_tool_prefix [] = []"
| "strip_tool_prefix (c # cs) =
     (case match_name (c # cs) of
        Some (g, r) \<Rightarrow> str ''\"name\": \"'' @ g @ str ''\"'' @ strip_tool_prefix r
      | None \<Rightarrow> c # strip_tool_prefix cs)"
  by pat_completeness auto
termination
  by (relation "measure length") (auto dest: match_name_shorter)

text \<open>
  No match of the pattern that starts inside \<open>pre\<close>, in the text \<open>pre @ s\<close>, reaches into
  \<open>s\<close>.
\<close>

fun no_match_into :: "jsstring \<Rightarrow> jsstring \<Rightarrow> bool" where
  "no_match_into [] s = True"
| "no_match_into (c # cs) s =
     ((case match_name (c # cs @ s) of
         None \<Rightarrow> True
       | Some (g, r) \<Rightarrow> length s \<le> length r) \<and>
      no_match_into cs s)"

section \<open>UTF-8 decoding and encoding\<close>

text \<open>
  \<open>TextDecoder\<close> and \<open>TextEncoder\<close> are the platform's; they are modelled after the
  Encoding Standard. The decoder keeps, between the bytes of one character, the code
  point so far, the number of bytes still needed and the bounds of the next byte; the
  \<open>TextDecoder\<close> object also remembers whether the start of the stream is behind it,
  since it removes a byte order mark there.
\<close>

record utf8_state =
  code_point :: nat
  bytes_needed :: nat
  lower_boundary :: nat
  upper_boundary :: nat

definition utf8_init :: utf8_state where
  "utf8_init = \<lparr>code_point = 0, bytes_needed = 0, lower_boundary = 128, upper_boundary = 191\<rparr>"

text \<open>A byte read when no character is in progress.\<close>

definition utf8_lead :: "nat \<Rightarrow> nat list \<times> utf8_state" where
  "utf8_lead b =
     (if b \<le> 127 then ([b], utf8_init)
      else if 194 \<le> b \<and> b \<le> 223 then
        ([], utf8_init\<lparr>code_point := b mod 32, bytes_needed := 1\<rparr>)
      else if 224 \<le> b \<and> b \<le> 239 then
        ([], \<lparr>code_point = b mod 16, bytes_needed = 2,
              lower_boundary = (if b = 224 then 160 else 128),
              upper_boundary = (if b = 237 then 159 else 191)\<rparr>)
      else if 240 \<le> b \<and> b \<le> 244 then
        ([], \<lparr>code_point = b mod 8, bytes_needed = 3,
              lower_boundary = (if b = 240 then 144 else 128),
              upper_boundary = (if b = 244 then 143 else 191)\<rparr>)
      else ([65533], utf8_init))"

text \<open>
  One byte: the code points it completes and the new state. A byte outside the bounds
  ends the character in progress with U+FFFD and is then read again as a first byte.
\<close>

definition utf8_byte :: "utf8_state \<Rightarrow> nat \<Rightarrow> nat list \<times> utf8_state" where
  "utf8_byte st b =
     (if bytes_needed st = 0 then utf8_lead b
      else if b < lower_boundary st \<or> upper_boundary st < b then
        (case utf8_lead b of (out, st') \<Rightarrow> (65533 # out, st'))
      else
        (let cp = code_point st * 64 + b mod 64
         in if bytes_needed st = 1 then ([cp], utf8_init)
            else ([], \<lparr>code_point = cp, bytes_needed = bytes_needed st - 1,
                       lower_boundary = 128, upper_boundary = 191\<rparr>)))"

fun utf8_bytes :: "utf8_state \<Rightarrow> nat list \<Rightarrow> nat list \<times> utf8_state" where
  "utf8_bytes st [] = ([], st)"
| "utf8_bytes st (b # bs) =
     (case utf8_byte st b of
        (out, st') \<Rightarrow> (case utf8_bytes st' bs of (outs, st'') \<Rightarrow> (out @ outs, st'')))"

text \<open>A code point as UTF-16 code units, and the code units of a string as scalar values
  (a surrogate without its partner becomes U+FFFD, as \<open>TextEncoder\<close> does).\<close>

definition utf16_units :: "nat \<Rightarrow> jsstring" where
  "utf16_units cp =
     (if cp < 65536 then [cp]
      else [55296 + (cp - 65536) div 1024, 56320 + (cp - 65536) mod 1024])"

fun scalar_values :: "jsstring \<Rightarrow> nat list" where
  "scalar_values [] = []"
| "scalar_values [c] = [if 55296 \<le> c \<and> c \<le> 57343 then 65533 else c]"
| "scalar_values (c # d # cs) =
     (if 55296 \<le> c \<and> c \<le> 56319 \<and> 56320 \<le> d \<and> d \<le> 57343
      then (65536 + (c - 55296) * 1024 + (d - 56320)) # scalar_values cs
      else (if 55296 \<le> c \<and> c \<le> 57343 then 65533 else c) # scalar_values (d # cs))"

definition utf8_encode :: "nat \<Rightarrow> nat list" where
  "utf8_encode cp =
     (if cp < 128 then [cp]
      else if cp < 2048 then [192 + cp div 64, 128 + cp mod 64]
      else if cp < 65536 then [224 + cp div 4096, 128 + (cp div 64) mod 64, 128 + cp mod 64]
      else [240 + cp div 262144, 128 + (cp div 4096) mod 64, 128 + (cp div 64) mod 64,
            128 + cp mod 64])"

text \<open>\<open>new TextEncoder().encode(text)\<close>.\<close>

definition encoder_encode :: "jsstring \<Rightarrow> nat list" where
  "encoder_encode text = concat (map utf8_encode (scalar_values text))"

text \<open>
  The \<open>TextDecoder\<close> object: the decoder's state and the flag \<open>BOM seen\<close>.
  \<open>decoder.decode(value, {stream: true})\<close> reads the bytes of \<open>value\<close>, keeps an unfinished
  character for the next call, and drops U+FEFF when it is the first code point of the
  whole stream.
\<close>

record TextDecoder =
  utf8 :: utf8_state
  bom_seen :: bool

definition new_TextDecoder :: TextDecoder where
  "new_TextDecoder = \<lparr>utf8 = utf8_init, bom_seen = False\<rparr>"

definition skip_bom :: "bool \<Rightarrow> nat list \<Rightarrow> nat list \<times> bool" where
  "skip_bom seen cps =
     (case cps of
        [] \<Rightarrow> ([], seen)
      | cp # rest \<Rightarrow> (if \<not> seen \<and> cp = 65279 then rest else cps, True))"

definition decoder_decode_stream :: "TextDecoder \<Rightarrow> nat list \<Rightarrow> jsstring \<times> TextDecoder" where
  "decoder_decode_stream decoder val =
     (case utf8_bytes (utf8 decoder) val of
        (cps, st') \<Rightarrow>
          (case skip_bom (bom_seen decoder) cps of
             (cps', seen') \<Rightarrow>
               (concat (map utf16_units cps'), \<lparr>utf8 = st', bom_seen = seen'\<rparr>)))"

text \<open>
  \<open>response.text()\<close>: the whole body decoded at once; a character unfinished at the end
  becomes U+FFFD.
\<close>

definition response_text :: "nat list list \<Rightarrow> jsstring" where
  "response_text chunks =
     (case utf8_bytes utf8_init (concat chunks) of
        (cps, st') \<Rightarrow>
          (case skip_bom False (if bytes_needed st' = 0 then cps else cps @ [65533]) of
             (cps', seen') \<Rightarrow> concat (map utf16_units cps')))"

text \<open>
  \<open>transformStreamingResponse\<close>: the reader (the chunks not yet read) and the decoder.
  One \<open>pull\<close> reads one chunk; at the end of the input it closes the stream (\<open>None\<close>),
  otherwise it enqueues one chunk.
\<close>

record stream_state =
  reader :: "nat list list"
  decoder :: TextDecoder

definition transformStreamingResponse :: "nat list list \<Rightarrow> stream_state" where
  "transformStreamingResponse body = \<lparr>reader = body, decoder = new_TextDecoder\<rparr>"

definition pull :: "stream_state \<Rightarrow> nat list option \<times> stream_state" where
  "pull s =
     (case reader s of
        [] \<Rightarrow> (None, s)
      | val # rest \<Rightarrow>
          (case decoder_decode_stream (decoder s) val of
             (text, decoder') \<Rightarrow>
               (Some (encoder_encode (strip_tool_prefix text)),
                \<lparr>reader = rest, decoder = decoder'\<rparr>)))"

text \<open>The consumer pulls until the stream is closed: the chunks it receives.\<close>

function drain :: "stream_state \<Rightarrow> nat list list" where
  "drain s = (case pull s of (None, _) \<Rightarrow> [] | (Some chunk, s') \<Rightarrow> chunk # drain s')"
  by pat_completeness auto
termination
  by (relation "measure (\<lambda>s. length (reader s))")
     (auto simp: pull_def split: list.splits prod.splits)

declare drain.simps [simp del]







section \<open>The outside world of one request\<close>

text \<open>
  \<open>TokenData\<close> as the source declares it; times are milliseconds since the epoch.
\<close>

record TokenData =
  accessToken :: jsstring
  refreshToken :: jsstring
  expiresAt :: int

text \<open>
  The reply of the token endpoint: its status, its body as text and, from
  \<open>response.json()\<close>, either a rejection or the three fields the source reads.
\<close>

record TokenPayload =
  access_token :: jsstring
  refresh_token :: jsstring
  expires_in :: int

record TokenResponse =
  token_status :: nat
  token_text :: jsstring
  token_json :: "exn + TokenPayload"

text \<open>The reply of the upstream messages endpoint; \<open>up_body\<close> is \<open>None\<close> for a null body.\<close>

record UpstreamResponse =
  up_status :: nat
  up_content_type :: "jsstring option"
  up_body :: "nat list list option"

text \<open>
  Everything a request handler obtains from outside: the result of reading the key
  \<open>tokens\<close> from the store, the result of writing it (\<open>None\<close> is success), the clock at
  the freshness check and at the construction of a new record, and the outcome of each
  \<open>fetch\<close> (a rejection or a response). \<open>registry_latest\<close> is what the version lookup
  finds: \<open>None\<close> when the lookup fails, answers with a non-success status or carries no
  non-empty \<open>latest\<close> tag.
\<close>

record World =
  kv_get :: "exn + TokenData option"
  kv_put :: "exn option"
  now :: int
  now_refresh :: int
  token_fetch :: "exn + TokenResponse"
  registry_latest :: "jsstring option"
  upstream_fetch :: "exn + UpstreamResponse"

text \<open>The calls a handler makes to the outside, in order. Console output is left out.\<close>

datatype event =
    StoreGet
  | StorePut TokenData nat
  | FetchToken jsstring jsstring
  | FetchRegistry
  | FetchUpstream jsstring headers json

fun is_network_call :: "event \<Rightarrow> bool" where
  "is_network_call StoreGet = False"
| "is_network_call (StorePut _ _) = False"
| "is_network_call (FetchToken _ _) = True"
| "is_network_call FetchRegistry = True"
| "is_network_call (FetchUpstream _ _ _) = True"

fun is_token_refresh :: "event \<Rightarrow> bool" where
  "is_token_refresh (FetchToken _ _) = True"
| "is_token_refresh _ = False"

fun is_upstream_forward :: "event \<Rightarrow> bool" where
  "is_upstream_forward (FetchUpstream _ _ _) = True"
| "is_upstream_forward _ = False"

fun is_store_write :: "event \<Rightarrow> bool" where
  "is_store_write (StorePut _ _) = True"
| "is_store_write _ = False"

section \<open>The token lifecycle manager\<close>

definition response_ok :: "nat \<Rightarrow> bool" where
  "response_ok status = (200 \<le> status \<and> status \<le> 299)"

definition getClaudeCodeVersion :: "World \<Rightarrow> jsstring \<times> event list" where
  "getClaudeCodeVersion w =
     ((case registry_latest w of Some v \<Rightarrow> v | None \<Rightarrow> CLAUDE_CODE_VERSION), [FetchRegistry])"

definition refreshAccessToken ::
  "jsstring \<Rightarrow> jsstring \<Rightarrow> World \<Rightarrow> (exn + TokenData) \<times> event list" where
  "refreshAccessToken refreshTok clientId w =
     (case token_fetch w of
        Inl e \<Rightarrow> (Inl e, [FetchToken refreshTok clientId])
      | Inr response \<Rightarrow>
          (if \<not> response_ok (token_status response)
           then (Inl (Error (str ''Token refresh failed: '' @ show_nat (token_status response) @
                             str '' '' @ token_text response)),
                 [FetchToken refreshTok clientId])
           else (case token_json response of
                   Inl e \<Rightarrow> (Inl e, [FetchToken refreshTok clientId])
                 | Inr data \<Rightarrow>
                     (Inr \<lparr>accessToken = access_token data,
                           refreshToken = refresh_token data,
                           expiresAt = now_refresh w + expires_in data * 1000\<rparr>,
                      [FetchToken refreshTok clientId]))))"

definition getValidToken :: "Env \<Rightarrow> World \<Rightarrow> (exn + jsstring) \<times> event list" where
  "getValidToken env w =
     (case kv_get w of
        Inl e \<Rightarrow> (Inl e, [StoreGet])
      | Inr cached \<Rightarrow>
          (case (case cached of
                   None \<Rightarrow> None
                 | Some c \<Rightarrow> if expiresAt c > now w + 60000 then Some (accessToken c)
                             else None) of
             Some valid \<Rightarrow> (Inr valid, [StoreGet])
           | None \<Rightarrow>
               (let refreshTok =
                      (case cached of
                         None \<Rightarrow> CLAUDE_REFRESH_TOKEN env
                       | Some c \<Rightarrow> if refreshToken c \<noteq> [] then refreshToken c
                                   else CLAUDE_REFRESH_TOKEN env)
                in (case refreshAccessToken refreshTok (CLAUDE_OAUTH_CLIENT_ID env) w of
                      (Inl e, evs) \<Rightarrow> (Inl e, StoreGet # evs)
                    | (Inr newTokens, evs) \<Rightarrow>
                        (case kv_put w of
                           Some e \<Rightarrow> (Inl e, StoreGet # evs @ [StorePut newTokens 86400])
                         | None \<Rightarrow>
                             (Inr (accessToken newTokens),
                              StoreGet # evs @ [StorePut newTokens 86400]))))))"

section \<open>The handlers\<close>

text \<open>
  A response: its status, its headers and its body. A body produced by
  \<open>JSON.stringify(v)\<close> is kept as the value \<open>v\<close>; a streamed body is the list of the
  chunks the client receives.
\<close>

datatype body = BodyText jsstring | BodyJson json | BodyStream "nat list list"

record Response =
  status :: nat
  resp_headers :: headers
  resp_body :: body

text \<open>A handler either returns a response or lets an exception escape.\<close>

datatype outcome = Returned Response | Thrown exn

text \<open>
  The request of \<open>handleMessages\<close>: besides method and headers, the result of
  \<open>request.json()\<close>, \<open>None\<close> when the body is not valid JSON.
\<close>

record MessagesRequest = Request +
  req_json :: "json option"

text \<open>
  The part of \<open>handleMessages\<close> after the body is parsed: transformation, version lookup,
  header construction, the upstream call and the transformation of its response. None
  of its exceptions is caught. \<open>new Response(body, {status})\<close> with a body throws a
  \<open>TypeError\<close> for the statuses 204, 205 and 304, which admit no body.
\<close>

definition null_body_status :: "nat \<Rightarrow> bool" where
  "null_body_status s = (s = 204 \<or> s = 205 \<or> s = 304)"

definition forwardMessages ::
  "MessagesRequest \<Rightarrow> jsstring \<Rightarrow> json \<Rightarrow> World \<Rightarrow> outcome \<times> event list" where
  "forwardMessages request accessTok body0 w =
     (case injectSystemPrompt body0 of
        Inl e \<Rightarrow> (Thrown e, [])
      | Inr body1 \<Rightarrow>
          (case sanitizeBody body1 of
             Inl e \<Rightarrow> (Thrown e, [])
           | Inr body \<Rightarrow>
               (case getClaudeCodeVersion w of
                  (version, evs) \<Rightarrow>
                    (let incomingBeta =
                           (case headers_get (req_headers request) (str ''anthropic-beta'') of
                              None \<Rightarrow> None
                            | Some b \<Rightarrow> if b = [] then None else Some b)
                     in (case buildHeaders accessTok version incomingBeta of
                           Inl e \<Rightarrow> (Thrown e, evs)
                         | Inr hdrs \<Rightarrow>
                     (let url = ANTHROPIC_API_URL @ str ''?beta=true'';
                          evs' = evs @ [FetchUpstream url hdrs body]
                      in (case upstream_fetch w of
                           Inl e \<Rightarrow> (Thrown e, evs')
                         | Inr response \<Rightarrow>
                             if null_body_status (up_status response) then (Thrown TypeError, evs')
                             else
                             (case (case js_get body (str ''stream'') of
                                      Inr s \<Rightarrow> if truthy_opt s then up_body response else None
                                    | Inl e \<Rightarrow> None) of
                                Some chunks \<Rightarrow>
                                  (Returned
                                     \<lparr>status = up_status response,
                                      resp_headers =
                                        [(str ''content-type'',
                                          (case up_content_type response of
                                             None \<Rightarrow> str ''text/event-stream''
                                           | Some ct \<Rightarrow> if ct = [] then str ''text/event-stream''
                                                        else ct)),
                                         (str ''cache-control'', str ''no-cache'')],
                                      resp_body =
                                        BodyStream (drain (transformStreamingResponse chunks))\<rparr>,
                                   evs')
                              | None \<Rightarrow>
                                  (Returned
                                     \<lparr>status = up_status response,
                                      resp_headers =
                                        [(str ''content-type'', str ''application/json'')],
                                      resp_body =
                                        BodyText (strip_tool_prefix
                                          (response_text
                                             (case up_body response of
                                                None \<Rightarrow> []
                                              | Some chunks \<Rightarrow> chunks)))\<rparr>,
                                   evs')))))))))"

definition handleMessages ::
  "MessagesRequest \<Rightarrow> Env \<Rightarrow> World \<Rightarrow> outcome \<times> event list" where
  "handleMessages request env w =
     (if req_method request \<noteq> str ''POST'' then
        (Returned \<lparr>status = 405, resp_headers = [],
                   resp_body = BodyText (str ''Method not allowed'')\<rparr>, [])
      else if \<not> validateAuth request env then
        (Returned \<lparr>status = 401, resp_headers = [],
                   resp_body = BodyText (str ''Unauthorized'')\<rparr>, [])
      else
        (case getValidToken env w of
           (Inl e, evs) \<Rightarrow>
             (Returned
                \<lparr>status = 500,
                 resp_headers = [(str ''content-type'', str ''application/json'')],
                 resp_body = BodyJson (JObj [(str ''error'', JStr (str ''Token error'')),
                                             (str ''message'', JStr (exn_to_string e))])\<rparr>,
              evs)
         | (Inr accessTok, evs) \<Rightarrow>
             (case req_json request of
                None \<Rightarrow>
                  (Returned \<lparr>status = 400, resp_headers = [],
                             resp_body = BodyText (str ''Invalid JSON body'')\<rparr>, evs)
              | Some body0 \<Rightarrow>
                  (case forwardMessages request accessTok body0 w of
                     (out, evs') \<Rightarrow> (out, evs @ evs')))))"

text \<open>
  \<open>handleHealth\<close>. For a positive whole number of milliseconds \<open>remaining\<close>,
  \<open>Math.round(remaining / 1000 / 60)\<close> is \<open>(remaining + 30000) div 60000\<close>.
\<close>

definition tokenStatus :: "World \<Rightarrow> jsstring" where
  "tokenStatus w =
     (case kv_get w of
        Inl e \<Rightarrow> str ''error: '' @ exn_to_string e
      | Inr None \<Rightarrow> str ''not cached (will use secret on first request)''
      | Inr (Some cached) \<Rightarrow>
          (let remaining = expiresAt cached - now w
           in if remaining > 0
              then str ''valid (expires in '' @ show_nat (nat ((remaining + 30000) div 60000)) @
                   str '' minutes)''
              else str ''expired (will refresh on next request)''))"

definition handleHealth :: "Env \<Rightarrow> World \<Rightarrow> Response \<times> event list" where
  "handleHealth env w =
     (\<lparr>status = 200,
       resp_headers = [(str ''content-type'', str ''application/json'')],
       resp_body = BodyJson (JObj [(str ''status'', JStr (str ''ok'')),
                                   (str ''service'', JStr (str ''claude-max-proxy'')),
                                   (str ''tokenStatus'', JStr (tokenStatus w))])\<rparr>,
      [StoreGet])"

text \<open>
  What the health handler may show of the store: a failed read, the absence of a
  record, or the time the cached record has left.
\<close>

definition health_view :: "World \<Rightarrow> exn + int option" where
  "health_view w =
     (case kv_get w of
        Inl e \<Rightarrow> Inl e
      | Inr cached \<Rightarrow> Inr (map_option (\<lambda>c. expiresAt c - now w) cached))"

section \<open>Facts about the string helpers\<close>

lemma js_split_not_Nil: "js_split sep s \<noteq> []"
  by (induction s) (auto split: list.splits)

lemma js_split_no_sep: "sep \<notin> set s \<Longrightarrow> js_split sep s = [s]"
  by (induction s) auto

lemma js_split_append_sep:
  "sep \<notin> set a \<Longrightarrow> js_split sep (a @ sep # r) = a # js_split sep r"
  by (induction a) auto

lemma js_split_pieces: "p \<in> set (js_split sep s) \<Longrightarrow> sep \<notin> set p"
proof (induction s arbitrary: p)
  case Nil
  then show ?case by simp
next
  case (Cons c cs)
  then show ?case
    by (cases "js_split sep cs") (auto split: if_splits)
qed

lemma js_join_split: "js_join [sep] (js_split sep s) = s"
proof (induction s)
  case Nil
  show ?case by simp
next
  case (Cons c cs)
  show ?case
  proof (cases "c = sep")
    case True
    then show ?thesis
      using Cons js_split_not_Nil [of sep cs]
      by (cases "js_split sep cs") auto
  next
    case False
    then show ?thesis
      using Cons js_split_not_Nil [of sep cs]
      by (cases "js_split sep cs"; cases "tl (js_split sep cs)") auto
  qed
qed

lemma js_split_two:
  "(js_index (js_split sep h) 0 = Some a \<and> js_index (js_split sep h) (Suc 0) = Some b) \<longleftrightarrow>
   (sep \<notin> set a \<and> sep \<notin> set b \<and> (\<exists>rest. h = a @ sep # b @ rest \<and> (rest = [] \<or> take 1 rest = [sep])))"
proof
  assume L: "js_index (js_split sep h) 0 = Some a \<and> js_index (js_split sep h) (Suc 0) = Some b"
  then obtain ps where ps: "js_split sep h = a # b # ps"
    by (cases "js_split sep h"; cases "tl (js_split sep h)")
       (auto simp: js_index_def split: if_splits)
  have na: "sep \<notin> set a" and nb: "sep \<notin> set b"
    using js_split_pieces [of a sep h] js_split_pieces [of b sep h] ps by auto
  have "h = js_join [sep] (a # b # ps)"
    using js_join_split [of sep h] ps by simp
  then have "h = a @ sep # b @ (case ps of [] \<Rightarrow> [] | _ \<Rightarrow> sep # js_join [sep] ps)"
    by (cases ps) auto
  then have "\<exists>rest. h = a @ sep # b @ rest \<and> (rest = [] \<or> take 1 rest = [sep])"
    by (cases ps) auto
  with na nb show "sep \<notin> set a \<and> sep \<notin> set b \<and> (\<exists>rest. h = a @ sep # b @ rest \<and> (rest = [] \<or> take 1 rest = [sep]))"
    by blast
next
  assume R: "sep \<notin> set a \<and> sep \<notin> set b \<and> (\<exists>rest. h = a @ sep # b @ rest \<and> (rest = [] \<or> take 1 rest = [sep]))"
  then obtain rest where h: "h = a @ sep # b @ rest" and r: "rest = [] \<or> take 1 rest = [sep]"
    by blast
  have s1: "js_split sep h = a # js_split sep (b @ rest)"
    using R h js_split_append_sep by blast
  show "js_index (js_split sep h) 0 = Some a \<and> js_index (js_split sep h) (Suc 0) = Some b"
  proof (cases rest)
    case Nil
    then show ?thesis using s1 R js_split_no_sep [of sep b] by (simp add: js_index_def)
  next
    case (Cons c cs)
    then have "c = sep" using r by simp
    then have "js_split sep (b @ rest) = b # js_split sep cs"
      using R Cons js_split_append_sep [of sep b cs] by simp
    then show ?thesis using s1 by (simp add: js_index_def)
  qed
qed

lemma space_notin_Bearer: "32 \<notin> set (str ''Bearer'')"
  by (simp add: str_def)

lemma str_Bearer_space: "str ''Bearer '' = str ''Bearer'' @ [32]"
  by (simp add: str_def)

section \<open>The request authenticator: claim C6\<close>

text \<open>
  Claim C6, as amended. \<open>validateAuth\<close> returns true exactly when the \<open>x-api-key\<close>
  header equals the shared secret, or the shared secret contains no space and the
  \<open>Authorization\<close> header is \<open>Bearer\<close>, one space and the secret, followed by nothing
  or by a space and any further text. It reads nothing but the two headers and the secret.
\<close>

theorem validateAuth_iff:
  "validateAuth request env \<longleftrightarrow>
     (32 \<notin> set (PROXY_SECRET env) \<and>
      (\<exists>rest. headers_get (req_headers request) (str ''Authorization'') =
                 Some (str ''Bearer '' @ PROXY_SECRET env @ rest) \<and>
              (rest = [] \<or> take 1 rest = [32]))) \<or>
     headers_get (req_headers request) (str ''x-api-key'') = Some (PROXY_SECRET env)"
proof (cases "headers_get (req_headers request) (str ''Authorization'')")
  case None
  then show ?thesis by (simp add: validateAuth_def)
next
  case (Some h)
  define B where "B = (js_index (js_split 32 h) 0 = Some (str ''Bearer'') \<and>
         js_index (js_split 32 h) (Suc 0) = Some (PROXY_SECRET env))"
  define K where "K = (headers_get (req_headers request) (str ''x-api-key'') = Some (PROXY_SECRET env))"
  define R where "R = (32 \<notin> set (PROXY_SECRET env) \<and>
         (\<exists>rest. h = str ''Bearer'' @ 32 # PROXY_SECRET env @ rest \<and>
                 (rest = [] \<or> take 1 rest = [32])))"
  have val: "validateAuth request env = ((h \<noteq> [] \<and> B) \<or> K)"
    unfolding B_def K_def by (auto simp add: validateAuth_def Let_def Some)
  have two: "B = R"
    unfolding B_def R_def
    using js_split_two [of 32 h "str ''Bearer''" "PROXY_SECRET env"] space_notin_Bearer
    by blast
  have ne: "R \<Longrightarrow> h \<noteq> []"
    unfolding R_def by auto
  have "validateAuth request env = (R \<or> K)"
    using val two ne by blast
  then show ?thesis
    unfolding R_def K_def by (simp add: Some str_Bearer_space)
qed

theorem validateAuth_iff_witness:
  "validateAuth \<lparr>req_method = str ''POST'',
                  req_headers = [(str ''authorization'', str ''Bearer right'')]\<rparr>
     \<lparr>CLAUDE_OAUTH_CLIENT_ID = [], CLAUDE_ACCESS_TOKEN = [], CLAUDE_REFRESH_TOKEN = [],
      PROXY_SECRET = str ''right''\<rparr> \<and>
   validateAuth \<lparr>req_method = str ''POST'',
                  req_headers = [(str ''x-api-key'', str ''right'')]\<rparr>
     \<lparr>CLAUDE_OAUTH_CLIENT_ID = [], CLAUDE_ACCESS_TOKEN = [], CLAUDE_REFRESH_TOKEN = [],
      PROXY_SECRET = str ''right''\<rparr> \<and>
   \<not> validateAuth \<lparr>req_method = str ''POST'',
                  req_headers = [(str ''authorization'', str ''Bearer wrong'')]\<rparr>
     \<lparr>CLAUDE_OAUTH_CLIENT_ID = [], CLAUDE_ACCESS_TOKEN = [], CLAUDE_REFRESH_TOKEN = [],
      PROXY_SECRET = str ''right''\<rparr>"
  using validateAuth_iff [of "\<lparr>req_method = str ''POST'',
                  req_headers = [(str ''authorization'', str ''Bearer right'')]\<rparr>"
            "\<lparr>CLAUDE_OAUTH_CLIENT_ID = [], CLAUDE_ACCESS_TOKEN = [], CLAUDE_REFRESH_TOKEN = [],
      PROXY_SECRET = str ''right''\<rparr>"]
     validateAuth_iff [of "\<lparr>req_method = str ''POST'',
                  req_headers = [(str ''x-api-key'', str ''right'')]\<rparr>"
            "\<lparr>CLAUDE_OAUTH_CLIENT_ID = [], CLAUDE_ACCESS_TOKEN = [], CLAUDE_REFRESH_TOKEN = [],
      PROXY_SECRET = str ''right''\<rparr>"]
     validateAuth_iff [of "\<lparr>req_method = str ''POST'',
                  req_headers = [(str ''authorization'', str ''Bearer wrong'')]\<rparr>"
            "\<lparr>CLAUDE_OAUTH_CLIENT_ID = [], CLAUDE_ACCESS_TOKEN = [], CLAUDE_REFRESH_TOKEN = [],
      PROXY_SECRET = str ''right''\<rparr>"]
  by (simp add: headers_get_def str_def ascii_lower_def)

text \<open>
  Claim C6 as stated fails in both directions. With the secret \<open>a b\<close> the header
  \<open>Authorization: Bearer a b\<close> carries exactly the secret after the scheme and is
  rejected, since the header is split at every space; with the secret \<open>right\<close> the
  header \<open>Authorization: Bearer right now\<close> is accepted although its token part is not
  the secret.
\<close>

theorem isAuthorized_counterexample:
  "\<not> validateAuth \<lparr>req_method = str ''POST'',
                  req_headers = [(str ''authorization'', str ''Bearer a b'')]\<rparr>
     \<lparr>CLAUDE_OAUTH_CLIENT_ID = [], CLAUDE_ACCESS_TOKEN = [], CLAUDE_REFRESH_TOKEN = [],
      PROXY_SECRET = str ''a b''\<rparr> \<and>
   isAuthorized_spec \<lparr>req_method = str ''POST'',
                  req_headers = [(str ''authorization'', str ''Bearer a b'')]\<rparr>
     \<lparr>CLAUDE_OAUTH_CLIENT_ID = [], CLAUDE_ACCESS_TOKEN = [], CLAUDE_REFRESH_TOKEN = [],
      PROXY_SECRET = str ''a b''\<rparr> \<and>
   validateAuth \<lparr>req_method = str ''POST'',
                  req_headers = [(str ''authorization'', str ''Bearer right now'')]\<rparr>
     \<lparr>CLAUDE_OAUTH_CLIENT_ID = [], CLAUDE_ACCESS_TOKEN = [], CLAUDE_REFRESH_TOKEN = [],
      PROXY_SECRET = str ''right''\<rparr> \<and>
   \<not> isAuthorized_spec \<lparr>req_method = str ''POST'',
                  req_headers = [(str ''authorization'', str ''Bearer right now'')]\<rparr>
     \<lparr>CLAUDE_OAUTH_CLIENT_ID = [], CLAUDE_ACCESS_TOKEN = [], CLAUDE_REFRESH_TOKEN = [],
      PROXY_SECRET = str ''right''\<rparr>"
  by (simp add: validateAuth_def isAuthorized_spec_def headers_get_def str_def ascii_lower_def
      js_index_def)

section \<open>The upstream header builder: claim C8\<close>

lemma js_join_comma: "js_join [44] xs = comma_sep xs"
  by (induction "[44::nat]" xs rule: js_join.induct) (auto split: list.splits)

lemma js_split_comma_sep:
  "xs \<noteq> [] \<Longrightarrow> \<forall>p\<in>set xs. 44 \<notin> set p \<Longrightarrow> js_split 44 (comma_sep xs) = xs"
proof (induction xs)
  case Nil
  then show ?case by simp
next
  case (Cons p rest)
  show ?case
  proof (cases rest)
    case Nil
    then show ?thesis using Cons.prems js_split_no_sep [of 44 p] by simp
  next
    case (Cons q rest')
    have "js_split 44 (comma_sep rest) = rest"
      using Cons.IH Cons.prems Cons by simp
    then have "js_split 44 (p @ 44 # comma_sep rest) = p # rest"
      using Cons.prems js_split_append_sep [of 44 p "comma_sep rest"] by simp
    then show ?thesis using Cons by simp
  qed
qed

lemma is_space_not_comma: "\<not> is_space 44"
  by (simp add: is_space_def)

lemma trim_pad:
  assumes "\<forall>c\<in>set l. is_space c" and "\<forall>c\<in>set r. is_space c"
    and "f \<noteq> [] \<longrightarrow> \<not> is_space (hd f) \<and> \<not> is_space (last f)"
  shows "trim (l @ f @ r) = f"
proof (cases "f = []")
  case True
  have "\<forall>x\<in>set (l @ r). is_space x"
    using assms(1,2) by auto
  then have d: "dropWhile is_space (l @ r) = []"
    by (simp only: dropWhile_eq_Nil_conv)
  have "trim (l @ r) = []"
    by (simp only: trim_def d rev.simps dropWhile.simps)
  then show ?thesis using True by simp
next
  case False
  then obtain a f' where f: "f = a # f'" by (cases f) auto
  have 1: "dropWhile is_space (l @ f @ r) = f @ r"
    using assms(1,3) f by (simp add: dropWhile_append2)
  have "rev f \<noteq> []" "\<not> is_space (hd (rev f))"
    using False assms(3) by (simp_all add: hd_rev)
  then obtain b g where g: "rev f = b # g" "\<not> is_space b"
    by (cases "rev f") auto
  have rr: "\<And>x. x \<in> set (rev r) \<Longrightarrow> is_space x"
    using assms(2) by simp
  have "dropWhile is_space (rev r @ b # g) = dropWhile is_space (b # g)"
    by (rule dropWhile_append2) (rule rr)
  then have 2: "dropWhile is_space (rev r @ rev f) = rev f"
    using g by simp
  show ?thesis
    by (simp add: trim_def 1 2)
qed

lemma incoming_pads:
  assumes "\<forall>(l, f, r)\<in>set ps. (\<forall>c\<in>set l. is_space c) \<and> (\<forall>c\<in>set r. is_space c) \<and> 44 \<notin> set f \<and>
             (f \<noteq> [] \<longrightarrow> \<not> is_space (hd f) \<and> \<not> is_space (last f))"
  shows "incomingBetasList (Some (comma_sep (map (\<lambda>(l, f, r). l @ f @ r) ps))) =
         filter (\<lambda>f. f \<noteq> []) (map (\<lambda>(l, f, r). f) ps)"
proof (cases "comma_sep (map (\<lambda>(l, f, r). l @ f @ r) ps) = []")
  case True
  then have "filter (\<lambda>f. f \<noteq> []) (map (\<lambda>(l, f, r). f) ps) = []"
    by (cases ps; cases "tl ps") (auto split: prod.splits)
  then show ?thesis using True by (simp add: incomingBetasList_def)
next
  case False
  then have ne: "map (\<lambda>(l, f, r). l @ f @ r) ps \<noteq> []" by auto
  have nc: "\<forall>p\<in>set (map (\<lambda>(l, f, r). l @ f @ r) ps). 44 \<notin> set p"
    using assms is_space_not_comma by fastforce
  have sp: "js_split 44 (comma_sep (map (\<lambda>(l, f, r). l @ f @ r) ps)) =
      map (\<lambda>(l, f, r). l @ f @ r) ps"
    by (rule js_split_comma_sep [OF ne nc])
  have "trim (case p of (l, f, r) \<Rightarrow> l @ f @ r) = (case p of (l, f, r) \<Rightarrow> f)"
    if "p \<in> set ps" for p
  proof -
    obtain l f r where p: "p = (l, f, r)" by (cases p)
    have "(\<forall>c\<in>set l. is_space c) \<and> (\<forall>c\<in>set r. is_space c) \<and>
          (f \<noteq> [] \<longrightarrow> \<not> is_space (hd f) \<and> \<not> is_space (last f))"
      using assms that p by fastforce
    then show ?thesis by (simp add: p trim_pad)
  qed
  then have tr: "map trim (map (\<lambda>(l, f, r). l @ f @ r) ps) = map (\<lambda>(l, f, r). f) ps"
    by simp
  show ?thesis
    using False by (simp only: incomingBetasList_def option.case if_False sp tr)
qed

lemma remdups_snoc: "remdups (zs @ [x]) = filter (\<lambda>y. y \<noteq> x) (remdups zs) @ [x]"
  by (induction zs) auto

lemma first_occurrences_Cons:
  "rev (remdups (rev (x # ys))) = x # rev (remdups (rev (filter (\<lambda>y. y \<noteq> x) ys)))"
  by (simp add: remdups_snoc rev_filter remdups_filter)

lemma set_add_all_explicit:
  "distinct seen \<Longrightarrow>
   set_add_all seen xs = seen @ rev (remdups (rev (filter (\<lambda>x. x \<notin> set seen) xs)))"
proof (induction xs arbitrary: seen)
  case Nil
  show ?case by simp
next
  case (Cons x xs)
  show ?case
  proof (cases "x \<in> set seen")
    case True
    then show ?thesis using Cons by simp
  next
    case False
    have f: "filter (\<lambda>y. y \<noteq> x) (filter (\<lambda>y. y \<notin> set seen) xs) =
             filter (\<lambda>y. y \<notin> set (seen @ [x])) xs"
      by (auto intro: filter_cong)
    have "set_add_all seen (x # xs) = set_add_all (seen @ [x]) xs"
      using False by simp
    also have "\<dots> = (seen @ [x]) @ rev (remdups (rev (filter (\<lambda>y. y \<notin> set (seen @ [x])) xs)))"
      using Cons.IH [of "seen @ [x]"] Cons.prems False by simp
    finally have 1: "set_add_all seen (x # xs) =
        seen @ x # rev (remdups (rev (filter (\<lambda>y. y \<notin> set (seen @ [x])) xs)))"
      by simp
    have "rev (remdups (rev (filter (\<lambda>y. y \<notin> set seen) (x # xs)))) =
        rev (remdups (rev (x # filter (\<lambda>y. y \<notin> set seen) xs)))"
      using False by simp
    also have "\<dots> = x # rev (remdups (rev (filter (\<lambda>y. y \<noteq> x)
        (filter (\<lambda>y. y \<notin> set seen) xs))))"
      by (rule first_occurrences_Cons)
    finally show ?thesis
      unfolding 1 f by simp
  qed
qed

lemma new_Set_required:
  "new_Set (REQUIRED_BETA_FLAGS @ xs) =
   REQUIRED_BETA_FLAGS @ rev (remdups (rev (filter (\<lambda>x. x \<notin> set REQUIRED_BETA_FLAGS) xs)))"
proof -
  have d: "distinct REQUIRED_BETA_FLAGS"
    by (simp add: REQUIRED_BETA_FLAGS_def str_def)
  have "set_add_all [] (REQUIRED_BETA_FLAGS @ xs) = set_add_all REQUIRED_BETA_FLAGS xs"
    by (simp add: REQUIRED_BETA_FLAGS_def str_def)
  then show ?thesis
    by (simp add: new_Set_def set_add_all_explicit [OF d])
qed

lemma http_ws_is_space: "is_http_ws c \<Longrightarrow> is_space c"
  by (auto simp: is_http_ws_def is_space_def)

lemma header_normalize_id:
  assumes "v \<noteq> []" and "\<not> is_http_ws (hd v)" and "\<not> is_http_ws (last v)"
  shows "header_normalize v = v"
proof -
  obtain a v' where v: "v = a # v'" using assms(1) by (cases v) auto
  have 1: "dropWhile is_http_ws v = v" using assms(2) v by simp
  have "rev v \<noteq> []" "\<not> is_http_ws (hd (rev v))"
    using assms(1,3) by (simp_all add: hd_rev)
  then have 2: "dropWhile is_http_ws (rev v) = rev v"
    by (cases "rev v") auto
  show ?thesis by (simp add: header_normalize_def 1 2)
qed

lemma last_concat_commas:
  "K \<noteq> [] \<Longrightarrow> last (concat (map ((#) (44::nat)) K)) = last (44 # last K)"
  by (induction K) auto

lemma buildHeaders_eq:
  "buildHeaders tok ver beta =
     (if header_value_ok (header_normalize (str ''Bearer '' @ tok)) \<and>
         header_value_ok (header_normalize (mergedBetas beta)) \<and>
         header_value_ok (header_normalize (str ''claude-cli/'' @ ver @ str '' (external, cli)''))
      then Inr [(str ''authorization'', header_normalize (str ''Bearer '' @ tok)),
                (str ''content-type'', str ''application/json''),
                (str ''anthropic-version'', str ''2023-06-01''),
                (str ''anthropic-beta'', header_normalize (mergedBetas beta)),
                (str ''user-agent'',
                 header_normalize (str ''claude-cli/'' @ ver @ str '' (external, cli)''))]
      else Inl TypeError)"
proof -
  have s1: "header_normalize (str ''application/json'') = str ''application/json''"
    "header_value_ok (str ''application/json'')"
    "header_normalize ANTHROPIC_API_VERSION = str ''2023-06-01''"
    "header_value_ok (str ''2023-06-01'')"
    by (simp_all add: header_normalize_def header_value_ok_def is_http_ws_def
        ANTHROPIC_API_VERSION_def str_def)
  have k: "map ascii_lower (str ''Authorization'') = str ''authorization''"
    "map ascii_lower (str ''Content-Type'') = str ''content-type''"
    "map ascii_lower (str ''anthropic-version'') = str ''anthropic-version''"
    "map ascii_lower (str ''anthropic-beta'') = str ''anthropic-beta''"
    "map ascii_lower (str ''User-Agent'') = str ''user-agent''"
    by (simp_all add: ascii_lower_def str_def)
  have d: "str ''content-type'' \<noteq> str ''authorization''"
    "str ''anthropic-version'' \<noteq> str ''authorization''"
    "str ''anthropic-version'' \<noteq> str ''content-type''"
    "str ''anthropic-beta'' \<noteq> str ''authorization''"
    "str ''anthropic-beta'' \<noteq> str ''content-type''"
    "str ''anthropic-beta'' \<noteq> str ''anthropic-version''"
    "str ''user-agent'' \<noteq> str ''authorization''"
    "str ''user-agent'' \<noteq> str ''content-type''"
    "str ''user-agent'' \<noteq> str ''anthropic-version''"
    "str ''user-agent'' \<noteq> str ''anthropic-beta''"
    by (simp_all add: str_def)
  show ?thesis
    unfolding buildHeaders_def headers_set_def Let_def k s1
    using d by (simp add: s1)
qed

text \<open>The flags the builder keeps of the caller's pieces.\<close>

lemma mergedBetas_pads:
  assumes "\<forall>(l, f, r)\<in>set ps. (\<forall>c\<in>set l. is_space c) \<and> (\<forall>c\<in>set r. is_space c) \<and> 44 \<notin> set f \<and>
             (f \<noteq> [] \<longrightarrow> \<not> is_space (hd f) \<and> \<not> is_space (last f))"
    and "beta = None \<and> ps = [] \<or> beta = Some (comma_sep (map (\<lambda>(l, f, r). l @ f @ r) ps))"
  shows "mergedBetas beta =
     comma_sep (REQUIRED_BETA_FLAGS @
       rev (remdups (rev (filter (\<lambda>f. f \<noteq> [] \<and> f \<notin> set REQUIRED_BETA_FLAGS)
                               (map (\<lambda>(l, f, r). f) ps)))))"
proof -
  have inc: "incomingBetasList beta = filter (\<lambda>f. f \<noteq> []) (map (\<lambda>(l, f, r). f) ps)"
    using assms(2)
  proof
    assume "beta = None \<and> ps = []"
    then show ?thesis by (simp add: incomingBetasList_def)
  next
    assume "beta = Some (comma_sep (map (\<lambda>(l, f, r). l @ f @ r) ps))"
    then show ?thesis using incoming_pads [OF assms(1)] by simp
  qed
  have c: "str '','' = [44]" by (simp add: str_def)
  show ?thesis
    unfolding mergedBetas_def c js_join_comma inc new_Set_required filter_filter ..
qed

lemma merged_value_facts:
  assumes "\<forall>(l, f, r)\<in>set ps. (\<forall>c\<in>set l. is_space c) \<and> (\<forall>c\<in>set r. is_space c) \<and> 44 \<notin> set f \<and>
             (f \<noteq> [] \<longrightarrow> \<not> is_space (hd f) \<and> \<not> is_space (last f))"
  defines "K \<equiv> rev (remdups (rev (filter (\<lambda>f. f \<noteq> [] \<and> f \<notin> set REQUIRED_BETA_FLAGS)
                               (map (\<lambda>(l, f, r). f) ps))))"
  shows "header_normalize (comma_sep (REQUIRED_BETA_FLAGS @ K)) = comma_sep (REQUIRED_BETA_FLAGS @ K)"
    and "header_value_ok (comma_sep (REQUIRED_BETA_FLAGS @ K)) \<longleftrightarrow>
           (\<forall>(l, f, r)\<in>set ps. header_value_ok f)"
proof -
  let ?r1 = "str ''oauth-2025-04-20''" and ?r2 = "str ''interleaved-thinking-2025-05-14''"
  have req: "REQUIRED_BETA_FLAGS = [?r1, ?r2]" by (simp add: REQUIRED_BETA_FLAGS_def)
  have V: "comma_sep (REQUIRED_BETA_FLAGS @ K) = ?r1 @ 44 # ?r2 @ concat (map ((#) 44) K)"
    by (simp add: req)
  have setK: "set K = {f. f \<in> (\<lambda>(l, f, r). f) ` set ps \<and> f \<noteq> [] \<and> f \<notin> set REQUIRED_BETA_FLAGS}"
    by (auto simp: K_def)
  have clean: "f \<noteq> [] \<and> \<not> is_space (last f)" if fk: "f \<in> set K" for f
  proof -
    obtain l r where "(l, f, r) \<in> set ps" "f \<noteq> []"
      using fk setK by auto
    then show ?thesis using assms(1) by fastforce
  qed
  have hdV: "hd (comma_sep (REQUIRED_BETA_FLAGS @ K)) = 111"
    unfolding V by (simp add: str_def)
  have lastV: "\<not> is_http_ws (last (comma_sep (REQUIRED_BETA_FLAGS @ K)))"
  proof (cases "K = []")
    case True
    then show ?thesis unfolding V by (simp add: str_def is_http_ws_def)
  next
    case False
    then have "last K \<in> set K" by simp
    then have lk: "last K \<noteq> []" "\<not> is_space (last (last K))"
      using clean by auto
    have "last (comma_sep (REQUIRED_BETA_FLAGS @ K)) = last (concat (map ((#) 44) K))"
      unfolding V using False by (cases K) simp_all
    also have "\<dots> = last (last K)"
      using last_concat_commas [OF False] lk(1) by simp
    finally show ?thesis using lk(2) http_ws_is_space by auto
  qed
  have neV: "comma_sep (REQUIRED_BETA_FLAGS @ K) \<noteq> []"
    unfolding V by (simp add: str_def)
  show "header_normalize (comma_sep (REQUIRED_BETA_FLAGS @ K)) = comma_sep (REQUIRED_BETA_FLAGS @ K)"
    by (rule header_normalize_id [OF neV _ lastV]) (simp add: hdV is_http_ws_def)
  have okr: "header_value_ok ?r1" "header_value_ok ?r2"
    by (simp_all add: header_value_ok_def str_def)
  have okK: "header_value_ok (concat (map ((#) 44) K)) \<longleftrightarrow> (\<forall>f\<in>set K. header_value_ok f)"
    by (auto simp: header_value_ok_def list_all_iff)
  have okV: "header_value_ok (comma_sep (REQUIRED_BETA_FLAGS @ K)) \<longleftrightarrow> (\<forall>f\<in>set K. header_value_ok f)"
    unfolding V using okr okK by (simp add: header_value_ok_def)
  have "(\<forall>f\<in>set K. header_value_ok f) \<longleftrightarrow> (\<forall>(l, f, r)\<in>set ps. header_value_ok f)"
  proof
    assume a: "\<forall>f\<in>set K. header_value_ok f"
    show "\<forall>(l, f, r)\<in>set ps. header_value_ok f"
    proof (clarify)
      fix l f r assume m: "(l, f, r) \<in> set ps"
      show "header_value_ok f"
      proof (cases "f = [] \<or> f \<in> set REQUIRED_BETA_FLAGS")
        case True
        then show ?thesis using okr by (auto simp: req header_value_ok_def)
      next
        case False
        then have "f \<in> set K" using m setK by force
        then show ?thesis using a by blast
      qed
    qed
  next
    assume "\<forall>(l, f, r)\<in>set ps. header_value_ok f"
    then show "\<forall>f\<in>set K. header_value_ok f"
      using setK by auto
  qed
  with okV show "header_value_ok (comma_sep (REQUIRED_BETA_FLAGS @ K)) \<longleftrightarrow>
           (\<forall>(l, f, r)\<in>set ps. header_value_ok f)"
    by simp
qed

lemma piece_parts:
  assumes "44 \<notin> set p"
    and q_def: "q = dropWhile is_space p"
    and l_def: "l = takeWhile is_space p"
    and f_def: "f = rev (dropWhile is_space (rev q))"
    and r_def: "r = rev (takeWhile is_space (rev q))"
  shows "(\<forall>c\<in>set l. is_space c) \<and> (\<forall>c\<in>set r. is_space c) \<and> 44 \<notin> set f \<and>
         (f \<noteq> [] \<longrightarrow> \<not> is_space (hd f) \<and> \<not> is_space (last f)) \<and> l @ f @ r = p"
proof -
  have l: "\<forall>c\<in>set l. is_space c"
    unfolding l_def by (auto dest: set_takeWhileD)
  have r: "\<forall>c\<in>set r. is_space c"
    unfolding r_def by (auto dest: set_takeWhileD)
  have fr: "f @ r = q"
  proof -
    have "f @ r = rev (takeWhile is_space (rev q) @ dropWhile is_space (rev q))"
      by (simp only: f_def r_def rev_append)
    then show ?thesis by (simp only: takeWhile_dropWhile_id rev_rev_ident)
  qed
  have lq: "l @ q = p"
    unfolding l_def q_def by simp
  have "set f \<subseteq> set q" using fr by (metis set_append sup_ge1)
  moreover have "set q \<subseteq> set p" unfolding q_def by (auto dest: set_dropWhileD)
  ultimately have nc: "44 \<notin> set f" using assms(1) by auto
  have ends: "\<not> is_space (hd f) \<and> \<not> is_space (last f)" if ne: "f \<noteq> []"
  proof -
    have d: "dropWhile is_space (rev q) \<noteq> []" using ne by (simp add: f_def)
    have "last f = hd (dropWhile is_space (rev q))"
      unfolding f_def using d by (simp add: last_rev)
    then have la: "\<not> is_space (last f)"
      using hd_dropWhile [OF d] by simp
    have "q \<noteq> []" using fr ne by auto
    then have "\<not> is_space (hd q)"
      unfolding q_def by (rule hd_dropWhile)
    moreover have "hd q = hd f" using fr ne by (metis hd_append2)
    ultimately show ?thesis using la by simp
  qed
  show ?thesis using l r nc ends fr lq by auto
qed

lemma beta_reading:
  "\<exists>ps. (\<forall>(l, f, r)\<in>set ps. (\<forall>c\<in>set l. is_space c) \<and> (\<forall>c\<in>set r. is_space c) \<and> 44 \<notin> set f \<and>
             (f \<noteq> [] \<longrightarrow> \<not> is_space (hd f) \<and> \<not> is_space (last f))) \<and>
        (beta = None \<and> ps = [] \<or> beta = Some (comma_sep (map (\<lambda>(l, f, r). l @ f @ r) ps)))"
proof (cases beta)
  case None
  then show ?thesis by (intro exI [of _ "[]"]) simp
next
  case (Some b)
  define parts where "parts p = (takeWhile is_space p,
      rev (dropWhile is_space (rev (dropWhile is_space p))),
      rev (takeWhile is_space (rev (dropWhile is_space p))))" for p
  define ps where "ps = map parts (js_split 44 b)"
  have each: "(\<forall>c\<in>set l. is_space c) \<and> (\<forall>c\<in>set r. is_space c) \<and> 44 \<notin> set f \<and>
         (f \<noteq> [] \<longrightarrow> \<not> is_space (hd f) \<and> \<not> is_space (last f)) \<and> l @ f @ r = p"
    if "p \<in> set (js_split 44 b)" "parts p = (l, f, r)" for p l f r
  proof (rule piece_parts [of p "dropWhile is_space p"])
    show "44 \<notin> set p" by (rule js_split_pieces [OF that(1)])
    show "dropWhile is_space p = dropWhile is_space p" ..
    show "l = takeWhile is_space p" using that(2) by (simp add: parts_def)
    show "f = rev (dropWhile is_space (rev (dropWhile is_space p)))"
      using that(2) by (simp add: parts_def)
    show "r = rev (takeWhile is_space (rev (dropWhile is_space p)))"
      using that(2) by (simp add: parts_def)
  qed
  have pads: "\<forall>(l, f, r)\<in>set ps. (\<forall>c\<in>set l. is_space c) \<and> (\<forall>c\<in>set r. is_space c) \<and>
      44 \<notin> set f \<and> (f \<noteq> [] \<longrightarrow> \<not> is_space (hd f) \<and> \<not> is_space (last f))"
  proof (clarify)
    fix l f r assume "(l, f, r) \<in> set ps"
    then obtain p where "p \<in> set (js_split 44 b)" "parts p = (l, f, r)"
      unfolding ps_def by auto
    from each [OF this]
    show "(\<forall>c\<in>set l. is_space c) \<and> (\<forall>c\<in>set r. is_space c) \<and>
      44 \<notin> set f \<and> (f \<noteq> [] \<longrightarrow> \<not> is_space (hd f) \<and> \<not> is_space (last f))"
      by blast
  qed
  have "(case parts p of (l, f, r) \<Rightarrow> l @ f @ r) = p" if "p \<in> set (js_split 44 b)" for p
    using each [OF that] by (cases "parts p") auto
  then have "map (\<lambda>(l, f, r). l @ f @ r) ps = js_split 44 b"
    unfolding ps_def by (simp add: map_idI)
  then have "comma_sep (map (\<lambda>(l, f, r). l @ f @ r) ps) = b"
    using js_join_split [of 44 b] by (simp add: js_join_comma)
  then show ?thesis using pads Some by blast
qed

text \<open>
  Claim C8, as amended. Read an incoming \<open>anthropic-beta\<close> value as its comma-separated
  pieces, each a flag \<open>f\<close> (possibly empty, free of commas, with no white space at its
  ends) between white space \<open>l\<close> and \<open>r\<close>; every value has such a reading, and no value
  at all is read as no pieces. Then \<open>buildHeaders\<close> returns exactly when the bearer value,
  the client identification and every flag pass the checks of \<open>Headers.set\<close>, and throws
  a \<open>TypeError\<close> otherwise. When it returns, \<open>anthropic-beta\<close> is the comma-joined list of
  the mandatory flags followed by the caller's non-empty flags that are not mandatory,
  each once, in the order of first occurrence; the header set has exactly five names,
  \<open>x-api-key\<close> not among them.
\<close>

theorem buildHeaders_beta:
  "((\<forall>(l, f, r)\<in>set ps. (\<forall>c\<in>set l. is_space c) \<and> (\<forall>c\<in>set r. is_space c) \<and> 44 \<notin> set f \<and>
        (f \<noteq> [] \<longrightarrow> \<not> is_space (hd f) \<and> \<not> is_space (last f))) \<and>
    (beta = None \<and> ps = [] \<or> beta = Some (comma_sep (map (\<lambda>(l, f, r). l @ f @ r) ps))) \<longrightarrow>
      ((\<exists>h. buildHeaders tok ver beta = Inr h) \<longleftrightarrow>
         header_value_ok (header_normalize (str ''Bearer '' @ tok)) \<and>
         header_value_ok (header_normalize (str ''claude-cli/'' @ ver @ str '' (external, cli)'')) \<and>
         (\<forall>(l, f, r)\<in>set ps. header_value_ok f)) \<and>
      (\<forall>h. buildHeaders tok ver beta = Inr h \<longrightarrow>
         headers_get h (str ''anthropic-beta'') =
           Some (comma_sep (REQUIRED_BETA_FLAGS @
                   rev (remdups (rev (filter (\<lambda>f. f \<noteq> [] \<and> f \<notin> set REQUIRED_BETA_FLAGS)
                                           (map (\<lambda>(l, f, r). f) ps)))))) \<and>
         headers_get h (str ''x-api-key'') = None \<and>
         map fst h = [str ''authorization'', str ''content-type'', str ''anthropic-version'',
                      str ''anthropic-beta'', str ''user-agent''])) \<and>
   (\<exists>ps. (\<forall>(l, f, r)\<in>set ps. (\<forall>c\<in>set l. is_space c) \<and> (\<forall>c\<in>set r. is_space c) \<and> 44 \<notin> set f \<and>
             (f \<noteq> [] \<longrightarrow> \<not> is_space (hd f) \<and> \<not> is_space (last f))) \<and>
          (beta = None \<and> ps = [] \<or> beta = Some (comma_sep (map (\<lambda>(l, f, r). l @ f @ r) ps)))) \<and>
   (buildHeaders tok ver beta = Inl TypeError \<or> (\<exists>h. buildHeaders tok ver beta = Inr h))"
proof (intro conjI impI)
  assume a: "(\<forall>(l, f, r)\<in>set ps. (\<forall>c\<in>set l. is_space c) \<and> (\<forall>c\<in>set r. is_space c) \<and> 44 \<notin> set f \<and>
        (f \<noteq> [] \<longrightarrow> \<not> is_space (hd f) \<and> \<not> is_space (last f))) \<and>
    (beta = None \<and> ps = [] \<or> beta = Some (comma_sep (map (\<lambda>(l, f, r). l @ f @ r) ps)))"
  let ?V = "comma_sep (REQUIRED_BETA_FLAGS @
                   rev (remdups (rev (filter (\<lambda>f. f \<noteq> [] \<and> f \<notin> set REQUIRED_BETA_FLAGS)
                                           (map (\<lambda>(l, f, r). f) ps)))))"
  have mb: "mergedBetas beta = ?V"
    using mergedBetas_pads [of ps beta] a by blast
  have nv: "header_normalize ?V = ?V"
    and okv: "header_value_ok ?V \<longleftrightarrow> (\<forall>(l, f, r)\<in>set ps. header_value_ok f)"
    using merged_value_facts [of ps] a by blast+
  show "(\<exists>h. buildHeaders tok ver beta = Inr h) \<longleftrightarrow>
         header_value_ok (header_normalize (str ''Bearer '' @ tok)) \<and>
         header_value_ok (header_normalize (str ''claude-cli/'' @ ver @ str '' (external, cli)'')) \<and>
         (\<forall>(l, f, r)\<in>set ps. header_value_ok f)"
    unfolding buildHeaders_eq mb nv okv by auto
  show "\<forall>h. buildHeaders tok ver beta = Inr h \<longrightarrow>
         headers_get h (str ''anthropic-beta'') = Some ?V \<and>
         headers_get h (str ''x-api-key'') = None \<and>
         map fst h = [str ''authorization'', str ''content-type'', str ''anthropic-version'',
                      str ''anthropic-beta'', str ''user-agent'']"
  proof (intro allI impI)
    fix h assume "buildHeaders tok ver beta = Inr h"
    then have h: "h = [(str ''authorization'', header_normalize (str ''Bearer '' @ tok)),
                (str ''content-type'', str ''application/json''),
                (str ''anthropic-version'', str ''2023-06-01''),
                (str ''anthropic-beta'', ?V),
                (str ''user-agent'',
                 header_normalize (str ''claude-cli/'' @ ver @ str '' (external, cli)''))]"
      unfolding buildHeaders_eq mb nv by (simp split: if_splits)
    have g: "headers_get h (str ''anthropic-beta'') = Some ?V"
      unfolding h headers_get_def by (simp add: ascii_lower_def str_def)
    have x: "headers_get h (str ''x-api-key'') = None"
      unfolding h headers_get_def by (simp add: ascii_lower_def str_def)
    show "headers_get h (str ''anthropic-beta'') = Some ?V \<and>
         headers_get h (str ''x-api-key'') = None \<and>
         map fst h = [str ''authorization'', str ''content-type'', str ''anthropic-version'',
                      str ''anthropic-beta'', str ''user-agent'']"
      using g x by (simp add: h)
  qed
next
  show "\<exists>ps. (\<forall>(l, f, r)\<in>set ps. (\<forall>c\<in>set l. is_space c) \<and> (\<forall>c\<in>set r. is_space c) \<and> 44 \<notin> set f \<and>
             (f \<noteq> [] \<longrightarrow> \<not> is_space (hd f) \<and> \<not> is_space (last f))) \<and>
          (beta = None \<and> ps = [] \<or> beta = Some (comma_sep (map (\<lambda>(l, f, r). l @ f @ r) ps)))"
    by (rule beta_reading)
next
  show "buildHeaders tok ver beta = Inl TypeError \<or> (\<exists>h. buildHeaders tok ver beta = Inr h)"
    unfolding buildHeaders_eq by simp
qed

theorem buildHeaders_beta_witness:
  "buildHeaders (str ''tok'') (str ''2.1.2'') (Some (str ''a, oauth-2025-04-20,,b ,a'')) =
     Inr [(str ''authorization'', str ''Bearer tok''),
          (str ''content-type'', str ''application/json''),
          (str ''anthropic-version'', str ''2023-06-01''),
          (str ''anthropic-beta'', str ''oauth-2025-04-20,interleaved-thinking-2025-05-14,a,b''),
          (str ''user-agent'', str ''claude-cli/2.1.2 (external, cli)'')] \<and>
   Some (str ''a, oauth-2025-04-20,,b ,a'') =
     Some (comma_sep (map (\<lambda>(l, f, r). l @ f @ r)
       [([], str ''a'', []), ([32], str ''oauth-2025-04-20'', []), ([], [], []),
        ([], str ''b'', [32]), ([], str ''a'', [])])) \<and>
   headers_get [(str ''authorization'', str ''Bearer tok''),
          (str ''content-type'', str ''application/json''),
          (str ''anthropic-version'', str ''2023-06-01''),
          (str ''anthropic-beta'', str ''oauth-2025-04-20,interleaved-thinking-2025-05-14,a,b''),
          (str ''user-agent'', str ''claude-cli/2.1.2 (external, cli)'')] (str ''anthropic-beta'') =
     Some (comma_sep (REQUIRED_BETA_FLAGS @ [str ''a'', str ''b'']))"
proof -
  let ?ps = "[([], str ''a'', []), ([32], str ''oauth-2025-04-20'', []), ([], [], []),
        ([], str ''b'', [32]), ([], str ''a'', [])]"
  let ?beta = "Some (str ''a, oauth-2025-04-20,,b ,a'')"
  let ?H = "[(str ''authorization'', str ''Bearer tok''),
          (str ''content-type'', str ''application/json''),
          (str ''anthropic-version'', str ''2023-06-01''),
          (str ''anthropic-beta'', str ''oauth-2025-04-20,interleaved-thinking-2025-05-14,a,b''),
          (str ''user-agent'', str ''claude-cli/2.1.2 (external, cli)'')]"
  have form: "?beta = Some (comma_sep (map (\<lambda>(l, f, r). l @ f @ r) ?ps))"
    by (simp add: str_def)
  have pads: "\<forall>(l, f, r)\<in>set ?ps. (\<forall>c\<in>set l. is_space c) \<and> (\<forall>c\<in>set r. is_space c) \<and>
      44 \<notin> set f \<and> (f \<noteq> [] \<longrightarrow> \<not> is_space (hd f) \<and> \<not> is_space (last f))"
    by (simp add: str_def is_space_def)
  have bh: "buildHeaders (str ''tok'') (str ''2.1.2'') ?beta = Inr ?H"
    by (simp add: buildHeaders_def headers_set_def header_normalize_def header_value_ok_def
        is_http_ws_def mergedBetas_def new_Set_def REQUIRED_BETA_FLAGS_def incomingBetasList_def
        trim_def is_space_def ANTHROPIC_API_VERSION_def ascii_lower_def str_def)
  have kept: "rev (remdups (rev (filter (\<lambda>f. f \<noteq> [] \<and> f \<notin> set REQUIRED_BETA_FLAGS)
      (map (\<lambda>(l, f, r). f) ?ps)))) = [str ''a'', str ''b'']"
    by (simp add: REQUIRED_BETA_FLAGS_def str_def)
  have hyp: "(\<forall>(l, f, r)\<in>set ?ps. (\<forall>c\<in>set l. is_space c) \<and> (\<forall>c\<in>set r. is_space c) \<and>
      44 \<notin> set f \<and> (f \<noteq> [] \<longrightarrow> \<not> is_space (hd f) \<and> \<not> is_space (last f))) \<and>
    (?beta = None \<and> ?ps = [] \<or> ?beta = Some (comma_sep (map (\<lambda>(l, f, r). l @ f @ r) ?ps)))"
    by (intro conjI disjI2) (rule pads, rule form)
  note r = buildHeaders_beta [of ?ps ?beta "str ''tok''" "str ''2.1.2''", THEN conjunct1, THEN mp,
      OF hyp, THEN conjunct2, THEN spec, THEN mp, OF bh, THEN conjunct1]
  have r': "headers_get ?H (str ''anthropic-beta'') =
      Some (comma_sep (REQUIRED_BETA_FLAGS @ [str ''a'', str ''b'']))"
    using r unfolding kept .
  show ?thesis
    by (intro conjI) (rule bh, rule form, rule r')
qed

text \<open>
  Claim C8 as stated fails for an access credential with a line feed inside:
  \<open>Headers.set\<close> rejects the \<open>Authorization\<close> value, the builder throws and no header is
  set.
\<close>

theorem buildHeaders_counterexample:
  "buildHeaders (str ''a'' @ [10] @ str ''b'') (str ''2.1.2'') None = Inl TypeError"
  by (simp add: buildHeaders_def headers_set_def header_normalize_def header_value_ok_def
      is_http_ws_def str_def)

section \<open>The token lifecycle manager: claims C3 and C4\<close>

lemma getValidToken_fresh:
  "kv_get w = Inr (Some c) \<Longrightarrow> expiresAt c > now w + 60000 \<Longrightarrow>
   getValidToken env w = (Inr (accessToken c), [StoreGet])"
  by (simp add: getValidToken_def)

lemma refreshAccessToken_rejected:
  "token_fetch w = Inr r \<Longrightarrow> \<not> response_ok (token_status r) \<Longrightarrow>
   refreshAccessToken t cid w =
     (Inl (Error (str ''Token refresh failed: '' @ show_nat (token_status r) @ str '' '' @
                  token_text r)),
      [FetchToken t cid])"
  by (simp add: refreshAccessToken_def)

lemma getValidToken_rejected:
  "kv_get w = Inr None \<Longrightarrow> token_fetch w = Inr r \<Longrightarrow> \<not> response_ok (token_status r) \<Longrightarrow>
   getValidToken env w =
     (Inl (Error (str ''Token refresh failed: '' @ show_nat (token_status r) @ str '' '' @
                  token_text r)),
      [StoreGet, FetchToken (CLAUDE_REFRESH_TOKEN env) (CLAUDE_OAUTH_CLIENT_ID env)])"
  by (simp add: getValidToken_def refreshAccessToken_rejected)

lemma getValidToken_events:
  "filter is_upstream_forward (snd (getValidToken env w)) = [] \<and>
   FetchRegistry \<notin> set (snd (getValidToken env w))"
  by (auto simp: getValidToken_def refreshAccessToken_def Let_def
      split: sum.splits option.splits if_splits prod.splits)

text \<open>
  Claim C3. When the store holds a record whose \<open>expiresAt\<close> is more than 60000 ms after
  the current time, \<open>getValidToken\<close> returns that record's \<open>accessToken\<close> unchanged; its
  only call to the outside is the read of the store: no network call, no refresh
  exchange, no store write.
\<close>

theorem getValidToken_fast_path:
  assumes "kv_get w = Inr (Some c)" and "expiresAt c > now w + 60000"
  shows "fst (getValidToken env w) = Inr (accessToken c) \<and>
         filter is_network_call (snd (getValidToken env w)) = [] \<and>
         filter is_token_refresh (snd (getValidToken env w)) = [] \<and>
         filter is_store_write (snd (getValidToken env w)) = [] \<and>
         snd (getValidToken env w) = [StoreGet]"
  using getValidToken_fresh [OF assms] by simp

theorem getValidToken_fast_path_witness:
  "fst (getValidToken
      \<lparr>CLAUDE_OAUTH_CLIENT_ID = str ''client'', CLAUDE_ACCESS_TOKEN = str ''at0'',
        CLAUDE_REFRESH_TOKEN = str ''rt0'', PROXY_SECRET = str ''right''\<rparr>
      \<lparr>kv_get = Inr (Some \<lparr>accessToken = str ''cached'', refreshToken = str ''rt1'',
                              expiresAt = 600000\<rparr>),
        kv_put = None, now = 0, now_refresh = 0,
        token_fetch = Inl (Platform (str ''unreachable'')),
        registry_latest = None,
        upstream_fetch = Inl (Platform (str ''unreachable''))\<rparr>) = Inr (str ''cached'')"
  using getValidToken_fast_path [of
      "\<lparr>kv_get = Inr (Some \<lparr>accessToken = str ''cached'', refreshToken = str ''rt1'',
                              expiresAt = 600000\<rparr>),
        kv_put = None, now = 0, now_refresh = 0,
        token_fetch = Inl (Platform (str ''unreachable'')),
        registry_latest = None,
        upstream_fetch = Inl (Platform (str ''unreachable''))\<rparr>"
      "\<lparr>accessToken = str ''cached'', refreshToken = str ''rt1'', expiresAt = 600000\<rparr>"
      "\<lparr>CLAUDE_OAUTH_CLIENT_ID = str ''client'', CLAUDE_ACCESS_TOKEN = str ''at0'',
        CLAUDE_REFRESH_TOKEN = str ''rt0'', PROXY_SECRET = str ''right''\<rparr>"]
  by simp

text \<open>
  Claim C4. When the store holds no record and the token endpoint answers the refresh
  exchange with a status outside 200..299, \<open>getValidToken\<close> fails with an \<open>Error\<close> whose
  message carries that status and the body of the answer; \<open>handleMessages\<close>, for a POST
  request that passes authentication, then returns status 500 with the JSON payload
  \<open>{error, message}\<close>, and nothing is sent to the upstream messages endpoint.
\<close>

theorem refresh_rejected_500:
  assumes "kv_get w = Inr None"
    and "token_fetch w = Inr r"
    and "\<not> response_ok (token_status r)"
    and "req_method request = str ''POST''"
    and "validateAuth request env"
  shows "fst (getValidToken env w) =
           Inl (Error (str ''Token refresh failed: '' @ show_nat (token_status r) @ str '' '' @
                       token_text r)) \<and>
         fst (handleMessages request env w) =
           Returned \<lparr>status = 500,
                     resp_headers = [(str ''content-type'', str ''application/json'')],
                     resp_body = BodyJson (JObj
                       [(str ''error'', JStr (str ''Token error'')),
                        (str ''message'',
                         JStr (str ''Error: Token refresh failed: '' @
                               show_nat (token_status r) @ str '' '' @ token_text r))])\<rparr> \<and>
         filter is_upstream_forward (snd (handleMessages request env w)) = [] \<and>
         snd (handleMessages request env w) =
           [StoreGet, FetchToken (CLAUDE_REFRESH_TOKEN env) (CLAUDE_OAUTH_CLIENT_ID env)]"
proof -
  let ?m = "str ''Token refresh failed: '' @ show_nat (token_status r) @ str '' '' @ token_text r"
  have gv: "getValidToken env w =
      (Inl (Error ?m), [StoreGet, FetchToken (CLAUDE_REFRESH_TOKEN env) (CLAUDE_OAUTH_CLIENT_ID env)])"
    by (rule getValidToken_rejected [OF assms(1,2,3)])
  have ne: "?m \<noteq> []"
    by (simp add: str_def)
  have app: "str ''Error: '' @ ?m =
      str ''Error: Token refresh failed: '' @ show_nat (token_status r) @ str '' '' @ token_text r"
    by (simp add: str_def)
  have es: "exn_to_string (Error ?m) =
      str ''Error: Token refresh failed: '' @ show_nat (token_status r) @ str '' '' @ token_text r"
    by (simp only: exn_to_string.simps ne if_False app)
  have hm: "handleMessages request env w =
      (Returned \<lparr>status = 500,
                 resp_headers = [(str ''content-type'', str ''application/json'')],
                 resp_body = BodyJson (JObj
                   [(str ''error'', JStr (str ''Token error'')),
                    (str ''message'', JStr (exn_to_string (Error ?m)))])\<rparr>,
       [StoreGet, FetchToken (CLAUDE_REFRESH_TOKEN env) (CLAUDE_OAUTH_CLIENT_ID env)])"
    unfolding handleMessages_def gv using assms(4,5) by (simp del: exn_to_string.simps)
  show ?thesis
    unfolding hm gv es by simp
qed

theorem refresh_rejected_500_witness:
  "fst (handleMessages
     \<lparr>req_method = str ''POST'', req_headers = [(str ''x-api-key'', str ''right'')],
       req_json = Some (JObj [])\<rparr>
     \<lparr>CLAUDE_OAUTH_CLIENT_ID = str ''client'', CLAUDE_ACCESS_TOKEN = str ''at0'',
       CLAUDE_REFRESH_TOKEN = str ''rt0'', PROXY_SECRET = str ''right''\<rparr>
     \<lparr>kv_get = Inr None, kv_put = None, now = 0, now_refresh = 0,
       token_fetch = Inr \<lparr>token_status = 401, token_text = str ''denied'',
                            token_json = Inl (Platform (str ''SyntaxError''))\<rparr>,
       registry_latest = None,
       upstream_fetch = Inl (Platform (str ''unreachable''))\<rparr>) =
   Returned \<lparr>status = 500,
             resp_headers = [(str ''content-type'', str ''application/json'')],
             resp_body = BodyJson (JObj
               [(str ''error'', JStr (str ''Token error'')),
                (str ''message'', JStr (str ''Error: Token refresh failed: 401 denied''))])\<rparr>"
  using refresh_rejected_500 [of
     "\<lparr>kv_get = Inr None, kv_put = None, now = 0, now_refresh = 0,
       token_fetch = Inr \<lparr>token_status = 401, token_text = str ''denied'',
                            token_json = Inl (Platform (str ''SyntaxError''))\<rparr>,
       registry_latest = None,
       upstream_fetch = Inl (Platform (str ''unreachable''))\<rparr>"
     "\<lparr>token_status = 401, token_text = str ''denied'',
                            token_json = Inl (Platform (str ''SyntaxError''))\<rparr>"
     "\<lparr>req_method = str ''POST'', req_headers = [(str ''x-api-key'', str ''right'')],
       req_json = Some (JObj [])\<rparr>"
     "\<lparr>CLAUDE_OAUTH_CLIENT_ID = str ''client'', CLAUDE_ACCESS_TOKEN = str ''at0'',
       CLAUDE_REFRESH_TOKEN = str ''rt0'', PROXY_SECRET = str ''right''\<rparr>"]
  by (simp add: response_ok_def validateAuth_def headers_get_def ascii_lower_def str_def
      show_nat.simps)

section \<open>The messages handler: claim C1\<close>

text \<open>
  Claim C1, as amended. For a POST request that passes authentication and whose body
  is not valid JSON, \<open>handleMessages\<close> makes exactly the outside calls of \<open>getValidToken\<close>,
  which it runs before it parses the body: no version lookup and no upstream forward,
  and no network call at all when the cached record has more than 60 s left. When
  \<open>getValidToken\<close> returns a credential the response is 400 \<open>Invalid JSON body\<close>; when it
  fails the response is 500. No body exists to be transformed.
\<close>

theorem invalid_json_after_token:
  assumes "req_method request = str ''POST''"
    and "validateAuth request env"
    and "req_json request = None"
  shows "snd (handleMessages request env w) = snd (getValidToken env w) \<and>
         filter is_upstream_forward (snd (handleMessages request env w)) = [] \<and>
         FetchRegistry \<notin> set (snd (handleMessages request env w)) \<and>
         (\<forall>tok. fst (getValidToken env w) = Inr tok \<longrightarrow>
                fst (handleMessages request env w) =
                  Returned \<lparr>status = 400, resp_headers = [],
                            resp_body = BodyText (str ''Invalid JSON body'')\<rparr>) \<and>
         (\<forall>e. fst (getValidToken env w) = Inl e \<longrightarrow>
              (\<exists>resp. fst (handleMessages request env w) = Returned resp \<and> status resp = 500)) \<and>
         (\<forall>c. kv_get w = Inr (Some c) \<and> expiresAt c > now w + 60000 \<longrightarrow>
              filter is_network_call (snd (handleMessages request env w)) = [])"
proof -
  obtain res evs where gv: "getValidToken env w = (res, evs)"
    by (cases "getValidToken env w")
  have hm: "handleMessages request env w =
      (case res of
         Inl e \<Rightarrow> Returned \<lparr>status = 500,
                 resp_headers = [(str ''content-type'', str ''application/json'')],
                 resp_body = BodyJson (JObj [(str ''error'', JStr (str ''Token error'')),
                                             (str ''message'', JStr (exn_to_string e))])\<rparr>
       | Inr tok \<Rightarrow> Returned \<lparr>status = 400, resp_headers = [],
                            resp_body = BodyText (str ''Invalid JSON body'')\<rparr>, evs)"
    using assms by (simp add: handleMessages_def gv split: sum.splits)
  have ev: "snd (handleMessages request env w) = snd (getValidToken env w)"
    by (simp add: hm gv)
  have fresh: "filter is_network_call (snd (getValidToken env w)) = []"
    if "kv_get w = Inr (Some c)" and "expiresAt c > now w + 60000" for c
    using getValidToken_fresh [OF that, of env] by simp
  show ?thesis
    unfolding ev using getValidToken_events [of env w] fresh
    by (auto simp: hm gv)
qed

theorem invalid_json_after_token_witness:
  "handleMessages
     \<lparr>req_method = str ''POST'', req_headers = [(str ''x-api-key'', str ''right'')],
       req_json = None\<rparr>
     \<lparr>CLAUDE_OAUTH_CLIENT_ID = str ''client'', CLAUDE_ACCESS_TOKEN = str ''at0'',
       CLAUDE_REFRESH_TOKEN = str ''rt0'', PROXY_SECRET = str ''right''\<rparr>
     \<lparr>kv_get = Inr (Some \<lparr>accessToken = str ''cached'', refreshToken = str ''rt1'',
                              expiresAt = 600000\<rparr>),
       kv_put = None, now = 0, now_refresh = 0,
       token_fetch = Inl (Platform (str ''unreachable'')),
       registry_latest = None,
       upstream_fetch = Inl (Platform (str ''unreachable''))\<rparr> =
   (Returned \<lparr>status = 400, resp_headers = [],
              resp_body = BodyText (str ''Invalid JSON body'')\<rparr>, [StoreGet])"
  using invalid_json_after_token [of
     "\<lparr>req_method = str ''POST'', req_headers = [(str ''x-api-key'', str ''right'')],
       req_json = None\<rparr>"
     "\<lparr>CLAUDE_OAUTH_CLIENT_ID = str ''client'', CLAUDE_ACCESS_TOKEN = str ''at0'',
       CLAUDE_REFRESH_TOKEN = str ''rt0'', PROXY_SECRET = str ''right''\<rparr>"
     "\<lparr>kv_get = Inr (Some \<lparr>accessToken = str ''cached'', refreshToken = str ''rt1'',
                              expiresAt = 600000\<rparr>),
       kv_put = None, now = 0, now_refresh = 0,
       token_fetch = Inl (Platform (str ''unreachable'')),
       registry_latest = None,
       upstream_fetch = Inl (Platform (str ''unreachable''))\<rparr>"]
  by (simp add: validateAuth_def headers_get_def ascii_lower_def str_def getValidToken_def
      prod_eq_iff)

text \<open>
  Claim C1 as stated fails: the credential is obtained before the body is parsed. With
  an empty store the handler performs the refresh exchange and the store write before it
  answers 400; and when the refresh exchange is rejected it answers 500, not 400.
\<close>

theorem invalid_json_counterexample:
  "handleMessages
     \<lparr>req_method = str ''POST'', req_headers = [(str ''x-api-key'', str ''right'')],
       req_json = None\<rparr>
     \<lparr>CLAUDE_OAUTH_CLIENT_ID = str ''client'', CLAUDE_ACCESS_TOKEN = str ''at0'',
       CLAUDE_REFRESH_TOKEN = str ''rt0'', PROXY_SECRET = str ''right''\<rparr>
     \<lparr>kv_get = Inr None, kv_put = None, now = 0, now_refresh = 0,
       token_fetch = Inr \<lparr>token_status = 200, token_text = [],
                            token_json = Inr \<lparr>access_token = str ''at1'',
                                                 refresh_token = str ''rt1'',
                                                 expires_in = 3600\<rparr>\<rparr>,
       registry_latest = None,
       upstream_fetch = Inl (Platform (str ''unreachable''))\<rparr> =
   (Returned \<lparr>status = 400, resp_headers = [],
              resp_body = BodyText (str ''Invalid JSON body'')\<rparr>,
    [StoreGet, FetchToken (str ''rt0'') (str ''client''),
     StorePut \<lparr>accessToken = str ''at1'', refreshToken = str ''rt1'', expiresAt = 3600000\<rparr>
       86400]) \<and>
   handleMessages
     \<lparr>req_method = str ''POST'', req_headers = [(str ''x-api-key'', str ''right'')],
       req_json = None\<rparr>
     \<lparr>CLAUDE_OAUTH_CLIENT_ID = str ''client'', CLAUDE_ACCESS_TOKEN = str ''at0'',
       CLAUDE_REFRESH_TOKEN = str ''rt0'', PROXY_SECRET = str ''right''\<rparr>
     \<lparr>kv_get = Inr None, kv_put = None, now = 0, now_refresh = 0,
       token_fetch = Inr \<lparr>token_status = 401, token_text = str ''denied'',
                            token_json = Inl (Platform (str ''SyntaxError''))\<rparr>,
       registry_latest = None,
       upstream_fetch = Inl (Platform (str ''unreachable''))\<rparr> =
   (Returned \<lparr>status = 500,
              resp_headers = [(str ''content-type'', str ''application/json'')],
              resp_body = BodyJson (JObj
                [(str ''error'', JStr (str ''Token error'')),
                 (str ''message'', JStr (str ''Error: Token refresh failed: 401 denied''))])\<rparr>,
    [StoreGet, FetchToken (str ''rt0'') (str ''client'')])"
  by (simp add: handleMessages_def validateAuth_def headers_get_def ascii_lower_def
      getValidToken_def refreshAccessToken_def response_ok_def show_nat.simps str_def)

section \<open>The health handler: claim C9\<close>

text \<open>
  Claim C9. The response of \<open>handleHealth\<close> is a function of what \<open>health_view\<close> shows:
  whether the store read failed, whether a record is cached, and the time that record
  has left. Two runs that differ in the access and refresh credentials, cached or
  configured, give the same response.
\<close>

theorem handleHealth_hides_credentials:
  assumes "health_view w1 = health_view w2"
  shows "handleHealth env1 w1 = handleHealth env2 w2"
proof -
  have "tokenStatus w1 = tokenStatus w2"
    using assms
    by (auto simp: health_view_def tokenStatus_def Let_def split: sum.splits option.splits)
  then show ?thesis by (simp add: handleHealth_def)
qed

theorem handleHealth_hides_credentials_witness:
  "handleHealth
     \<lparr>CLAUDE_OAUTH_CLIENT_ID = str ''client'', CLAUDE_ACCESS_TOKEN = str ''at0'',
       CLAUDE_REFRESH_TOKEN = str ''rt0'', PROXY_SECRET = str ''right''\<rparr>
     \<lparr>kv_get = Inr (Some \<lparr>accessToken = str ''secret-one'', refreshToken = str ''r-one'',
                              expiresAt = 600000\<rparr>),
       kv_put = None, now = 0, now_refresh = 0,
       token_fetch = Inl (Platform []), registry_latest = None,
       upstream_fetch = Inl (Platform [])\<rparr> =
   handleHealth
     \<lparr>CLAUDE_OAUTH_CLIENT_ID = str ''client'', CLAUDE_ACCESS_TOKEN = str ''at9'',
       CLAUDE_REFRESH_TOKEN = str ''rt9'', PROXY_SECRET = str ''right''\<rparr>
     \<lparr>kv_get = Inr (Some \<lparr>accessToken = str ''secret-two'', refreshToken = str ''r-two'',
                              expiresAt = 600000\<rparr>),
       kv_put = None, now = 0, now_refresh = 0,
       token_fetch = Inl (Platform []), registry_latest = None,
       upstream_fetch = Inl (Platform [])\<rparr> \<and>
   resp_body (fst (handleHealth
     \<lparr>CLAUDE_OAUTH_CLIENT_ID = str ''client'', CLAUDE_ACCESS_TOKEN = str ''at0'',
       CLAUDE_REFRESH_TOKEN = str ''rt0'', PROXY_SECRET = str ''right''\<rparr>
     \<lparr>kv_get = Inr (Some \<lparr>accessToken = str ''secret-one'', refreshToken = str ''r-one'',
                              expiresAt = 600000\<rparr>),
       kv_put = None, now = 0, now_refresh = 0,
       token_fetch = Inl (Platform []), registry_latest = None,
       upstream_fetch = Inl (Platform [])\<rparr>)) =
   BodyJson (JObj [(str ''status'', JStr (str ''ok'')),
                   (str ''service'', JStr (str ''claude-max-proxy'')),
                   (str ''tokenStatus'', JStr (str ''valid (expires in 10 minutes)''))])"
proof -
  have "handleHealth
     \<lparr>CLAUDE_OAUTH_CLIENT_ID = str ''client'', CLAUDE_ACCESS_TOKEN = str ''at0'',
       CLAUDE_REFRESH_TOKEN = str ''rt0'', PROXY_SECRET = str ''right''\<rparr>
     \<lparr>kv_get = Inr (Some \<lparr>accessToken = str ''secret-one'', refreshToken = str ''r-one'',
                              expiresAt = 600000\<rparr>),
       kv_put = None, now = 0, now_refresh = 0,
       token_fetch = Inl (Platform []), registry_latest = None,
       upstream_fetch = Inl (Platform [])\<rparr> =
   handleHealth
     \<lparr>CLAUDE_OAUTH_CLIENT_ID = str ''client'', CLAUDE_ACCESS_TOKEN = str ''at9'',
       CLAUDE_REFRESH_TOKEN = str ''rt9'', PROXY_SECRET = str ''right''\<rparr>
     \<lparr>kv_get = Inr (Some \<lparr>accessToken = str ''secret-two'', refreshToken = str ''r-two'',
                              expiresAt = 600000\<rparr>),
       kv_put = None, now = 0, now_refresh = 0,
       token_fetch = Inl (Platform []), registry_latest = None,
       upstream_fetch = Inl (Platform [])\<rparr>"
    by (rule handleHealth_hides_credentials) (simp add: health_view_def)
  then show ?thesis
    by (simp add: handleHealth_def tokenStatus_def show_nat.simps str_def)
qed

section \<open>Identity injection: claim C5\<close>

lemma alist_update_twice: "AList.update k v (AList.update k v' al) = AList.update k v al"
  by (induction al) auto

lemma alist_update_same: "map_of al k = Some v \<Longrightarrow> AList.update k v al = al"
  by (induction al) (auto split: if_splits)

lemma preamble_has_identity:
  "block_has_identity (text_block CLAUDE_CODE_SYSTEM_PROMPT) = Inr True"
  by (simp add: block_has_identity_def text_block_def CLAUDE_CODE_SYSTEM_PROMPT_def str_def)

lemma preamble_is_preamble: "is_preamble_block (text_block CLAUDE_CODE_SYSTEM_PROMPT)"
  by (simp add: is_preamble_block_def text_block_def str_def)

lemma identity_of_preamble:
  "is_preamble_block b \<Longrightarrow> block_has_identity b = Inr True"
  by (cases b)
     (auto simp: is_preamble_block_def block_has_identity_def CLAUDE_CODE_SYSTEM_PROMPT_def str_def)

lemma js_some_False:
  "js_some p xs = Inr False \<Longrightarrow> x \<in> set xs \<Longrightarrow> p x = Inr False"
  by (induction xs) (auto split: sum.splits if_splits)

lemma no_identity_no_preamble:
  assumes "js_some block_has_identity blocks = Inr False"
  shows "filter is_preamble_block blocks = []"
proof -
  have "\<not> is_preamble_block b" if "b \<in> set blocks" for b
    using js_some_False [OF assms that] identity_of_preamble [of b] by auto
  then show ?thesis by (simp add: filter_empty_conv)
qed

lemma normalize_system_updated:
  "normalize_system (AList.update (str ''system'') (JArr bs) obj) = JArr bs"
  by (simp add: normalize_system_def update_conv' truthy_opt_def)

text \<open>
  Claim C5, as amended. Identity injection is idempotent: on every body on which it
  returns, a second application returns the same body and prepends nothing. For an object
  body the resulting \<open>system\<close> is the incoming sequence (a bare string wrapped into one
  text block, a missing or falsy value taken as empty) when one of its blocks begins with
  the identity phrase; otherwise it is that sequence with the identity preamble block in
  front, and then exactly one of its blocks has the identity preamble as its text.
\<close>

theorem injectSystemPrompt_idempotent:
  assumes "injectSystemPrompt body = Inr body'"
  shows "injectSystemPrompt body' = Inr body' \<and>
         (\<forall>obj. body = JObj obj \<longrightarrow>
            (\<exists>blocks. normalize_system obj = JArr blocks \<and>
               (if js_some block_has_identity blocks = Inr True
                then system_of body' = Some (JArr blocks)
                else system_of body' = Some (JArr (text_block CLAUDE_CODE_SYSTEM_PROMPT # blocks)) \<and>
                     length (filter is_preamble_block
                               (text_block CLAUDE_CODE_SYSTEM_PROMPT # blocks)) = 1)))"
proof (cases body)
  case (JObj obj)
  obtain blocks where ns: "normalize_system obj = JArr blocks"
    using assms JObj by (auto simp: injectSystemPrompt_def split: json.splits)
  obtain h where h: "js_some block_has_identity blocks = Inr h"
    using assms JObj ns by (auto simp: injectSystemPrompt_def split: sum.splits)
  define bs where "bs = (if h then blocks else text_block CLAUDE_CODE_SYSTEM_PROMPT # blocks)"
  have b': "body' = JObj (AList.update (str ''system'') (JArr bs) obj)"
    using assms JObj ns h by (simp add: injectSystemPrompt_def bs_def)
  have some_bs: "js_some block_has_identity bs = Inr True"
    using h by (cases h) (simp_all add: bs_def preamble_has_identity)
  have idem: "injectSystemPrompt body' = Inr body'"
    by (simp add: b' injectSystemPrompt_def normalize_system_updated some_bs alist_update_twice)
  have sys: "system_of body' = Some (JArr bs)"
    by (simp add: b' system_of_def update_conv')
  have cnt: "length (filter is_preamble_block (text_block CLAUDE_CODE_SYSTEM_PROMPT # blocks)) = 1"
    if "\<not> h"
    using that h no_identity_no_preamble [of blocks] preamble_is_preamble by simp
  show ?thesis
    using idem sys cnt ns h JObj by (cases h) (auto simp: bs_def)
next
  case (JArr xs)
  then show ?thesis using assms by (auto simp: injectSystemPrompt_def)
qed (use assms in \<open>simp_all add: injectSystemPrompt_def\<close>)

theorem injectSystemPrompt_idempotent_witness:
  "injectSystemPrompt (JObj [(str ''system'', JStr (str ''hi''))]) =
     Inr (JObj [(str ''system'',
                 JArr [text_block CLAUDE_CODE_SYSTEM_PROMPT, text_block (str ''hi'')])]) \<and>
   injectSystemPrompt (JObj [(str ''system'',
                 JArr [text_block CLAUDE_CODE_SYSTEM_PROMPT, text_block (str ''hi'')])]) =
     Inr (JObj [(str ''system'',
                 JArr [text_block CLAUDE_CODE_SYSTEM_PROMPT, text_block (str ''hi'')])])"
proof -
  have 1: "injectSystemPrompt (JObj [(str ''system'', JStr (str ''hi''))]) =
     Inr (JObj [(str ''system'',
                 JArr [text_block CLAUDE_CODE_SYSTEM_PROMPT, text_block (str ''hi'')])])"
    by (simp add: injectSystemPrompt_def normalize_system_def truthy_opt_def
        block_has_identity_def text_block_def str_def)
  from injectSystemPrompt_idempotent [OF 1] 1 show ?thesis by simp
qed

text \<open>
  Claim C5 as stated fails for a body whose \<open>system\<close> already holds the identity preamble
  twice: injection, applied once or twice, leaves both blocks in place, so the result
  holds two blocks whose text is the identity preamble, not one.
\<close>

theorem injectSystemPrompt_counterexample:
  "injectSystemPrompt (JObj [(str ''system'',
       JArr [text_block CLAUDE_CODE_SYSTEM_PROMPT, text_block CLAUDE_CODE_SYSTEM_PROMPT])]) =
     Inr (JObj [(str ''system'',
       JArr [text_block CLAUDE_CODE_SYSTEM_PROMPT, text_block CLAUDE_CODE_SYSTEM_PROMPT])]) \<and>
   length (filter is_preamble_block
     [text_block CLAUDE_CODE_SYSTEM_PROMPT, text_block CLAUDE_CODE_SYSTEM_PROMPT]) = 2"
  by (simp add: injectSystemPrompt_def normalize_system_def truthy_opt_def
      block_has_identity_def is_preamble_block_def text_block_def
      CLAUDE_CODE_SYSTEM_PROMPT_def str_def)

section \<open>Tool namespacing: claims C10 and C2\<close>

lemma map_err_length: "map_err f xs = Inr ys \<Longrightarrow> length ys = length xs"
  by (induction xs arbitrary: ys) (auto split: sum.splits)

lemma map_err_nth:
  "map_err f xs = Inr ys \<Longrightarrow> i < length xs \<Longrightarrow> f (xs ! i) = Inr (ys ! i)"
proof (induction xs arbitrary: ys i)
  case Nil
  then show ?case by simp
next
  case (Cons x xs)
  then show ?case
    by (cases i) (auto split: sum.splits)
qed

lemma sanitize_field_other:
  "sanitize_field k f obj = Inr obj' \<Longrightarrow> k' \<noteq> k \<Longrightarrow> map_of obj' k' = map_of obj k'"
  by (auto simp: sanitize_field_def update_conv' split: option.splits json.splits sum.splits)

lemma sanitize_field_array:
  "sanitize_field k f obj = Inr obj' \<Longrightarrow> map_of obj k = Some (JArr xs) \<Longrightarrow>
   \<exists>ys. map_of obj' k = Some (JArr ys) \<and> map_err f xs = Inr ys"
  by (auto simp: sanitize_field_def update_conv' split: sum.splits)

lemma field_names_distinct:
  "str ''system'' \<noteq> str ''tools''" "str ''messages'' \<noteq> str ''tools''"
  "str ''system'' \<noteq> str ''messages''" "str ''tools'' \<noteq> str ''messages''"
  "str ''tools'' \<noteq> str ''system''" "str ''messages'' \<noteq> str ''system''"
  by (simp_all add: str_def)

lemma sanitizeBody_tools:
  assumes "sanitizeBody (JObj obj) = Inr body'"
    and "map_of obj (str ''tools'') = Some (JArr ts)"
  shows "\<exists>obj' ts'. body' = JObj obj' \<and> map_of obj' (str ''tools'') = Some (JArr ts') \<and>
           map_err prefix_tool ts = Inr ts'"
proof -
  obtain obj1 obj2 obj3 where
    1: "sanitize_field (str ''system'') sanitize_item obj = Inr obj1" and
    2: "sanitize_field (str ''tools'') prefix_tool obj1 = Inr obj2" and
    3: "sanitize_field (str ''messages'') sanitize_message obj2 = Inr obj3" and
    b: "body' = JObj obj3"
    using assms(1) by (auto simp: sanitizeBody_def split: sum.splits)
  have "map_of obj1 (str ''tools'') = Some (JArr ts)"
    using sanitize_field_other [OF 1, of "str ''tools''"] assms(2) field_names_distinct by simp
  then obtain ts' where t: "map_of obj2 (str ''tools'') = Some (JArr ts')"
      and m: "map_err prefix_tool ts = Inr ts'"
    using sanitize_field_array [OF 2] by blast
  have "map_of obj3 (str ''tools'') = Some (JArr ts')"
    using sanitize_field_other [OF 3, of "str ''tools''"] t field_names_distinct by simp
  with b m show ?thesis by blast
qed

lemma sanitizeBody_messages:
  assumes "sanitizeBody (JObj obj) = Inr body'"
    and "map_of obj (str ''messages'') = Some (JArr ms)"
  shows "\<exists>obj' ms'. body' = JObj obj' \<and> map_of obj' (str ''messages'') = Some (JArr ms') \<and>
           map_err sanitize_message ms = Inr ms'"
proof -
  obtain obj1 obj2 obj3 where
    1: "sanitize_field (str ''system'') sanitize_item obj = Inr obj1" and
    2: "sanitize_field (str ''tools'') prefix_tool obj1 = Inr obj2" and
    3: "sanitize_field (str ''messages'') sanitize_message obj2 = Inr obj3" and
    b: "body' = JObj obj3"
    using assms(1) by (auto simp: sanitizeBody_def split: sum.splits)
  have "map_of obj1 (str ''messages'') = Some (JArr ms)"
    using sanitize_field_other [OF 1, of "str ''messages''"] assms(2) field_names_distinct by simp
  then have "map_of obj2 (str ''messages'') = Some (JArr ms)"
    using sanitize_field_other [OF 2, of "str ''messages''"] field_names_distinct by simp
  then obtain ms' where t: "map_of obj3 (str ''messages'') = Some (JArr ms')"
      and m: "map_err sanitize_message ms = Inr ms'"
    using sanitize_field_array [OF 3] by blast
  with b show ?thesis by blast
qed

lemma prefix_tool_unnamed:
  "map_of o' (str ''name'') = None \<or> map_of o' (str ''name'') = Some (JStr []) \<Longrightarrow>
   prefix_tool (JObj o') = Inr (JObj o')"
  by (auto simp: prefix_tool_def alist_update_same)

lemma prefix_tool_named:
  "map_of o' (str ''name'') = Some (JStr n) \<Longrightarrow> n \<noteq> [] \<Longrightarrow>
   prefix_tool (JObj o') = Inr (JObj (AList.update (str ''name'') (JStr (TOOL_PREFIX @ n)) o'))"
  by (auto simp: prefix_tool_def)

lemma prefix_block_named:
  "map_of b (str ''type'') = Some (JStr (str ''tool_use'')) \<Longrightarrow>
   map_of b (str ''name'') = Some (JStr n) \<Longrightarrow> n \<noteq> [] \<Longrightarrow>
   prefix_block (JObj b) = Inr (JObj (AList.update (str ''name'') (JStr (TOOL_PREFIX @ n)) b))"
  by (auto simp: prefix_block_def)

text \<open>
  Claim C10. When \<open>sanitizeBody\<close> returns, a tool definition of \<open>tools\<close> whose \<open>name\<close> is
  missing or the empty string is the same definition in the result: the prefix is only
  put in front of a name that is truthy, and the empty string is not.
\<close>

theorem sanitizeBody_keeps_unnamed_tool:
  assumes "sanitizeBody (JObj obj) = Inr body'"
    and "map_of obj (str ''tools'') = Some (JArr ts)"
    and "i < length ts"
    and "ts ! i = JObj tool"
    and "map_of tool (str ''name'') = None \<or> map_of tool (str ''name'') = Some (JStr [])"
  shows "\<exists>obj' ts'. body' = JObj obj' \<and> map_of obj' (str ''tools'') = Some (JArr ts') \<and>
           length ts' = length ts \<and> ts' ! i = ts ! i"
proof -
  obtain obj' ts' where b: "body' = JObj obj'"
      and t: "map_of obj' (str ''tools'') = Some (JArr ts')"
      and m: "map_err prefix_tool ts = Inr ts'"
    using sanitizeBody_tools [OF assms(1,2)] by blast
  have "prefix_tool (ts ! i) = Inr (ts' ! i)"
    using map_err_nth [OF m assms(3)] .
  then have "ts' ! i = ts ! i"
    using prefix_tool_unnamed [OF assms(5)] assms(4) by simp
  then show ?thesis
    using b t map_err_length [OF m] by blast
qed

theorem sanitizeBody_keeps_unnamed_tool_witness:
  "sanitizeBody (JObj [(str ''tools'', JArr [JObj [(str ''name'', JStr [])],
                                             JObj [(str ''description'', JStr (str ''d''))],
                                             JObj [(str ''name'', JStr (str ''search''))]])]) =
     Inr (JObj [(str ''tools'', JArr [JObj [(str ''name'', JStr [])],
                                      JObj [(str ''description'', JStr (str ''d''))],
                                      JObj [(str ''name'', JStr (str ''mcp_search''))]])]) \<and>
   (\<exists>obj' ts'. JObj [(str ''tools'', JArr [JObj [(str ''name'', JStr [])],
                                      JObj [(str ''description'', JStr (str ''d''))],
                                      JObj [(str ''name'', JStr (str ''mcp_search''))]])] = JObj obj' \<and>
      map_of obj' (str ''tools'') = Some (JArr ts') \<and> length ts' = 3 \<and>
      ts' ! 0 = JObj [(str ''name'', JStr [])])"
proof -
  have 1: "sanitizeBody (JObj [(str ''tools'', JArr [JObj [(str ''name'', JStr [])],
                                             JObj [(str ''description'', JStr (str ''d''))],
                                             JObj [(str ''name'', JStr (str ''search''))]])]) =
     Inr (JObj [(str ''tools'', JArr [JObj [(str ''name'', JStr [])],
                                      JObj [(str ''description'', JStr (str ''d''))],
                                      JObj [(str ''name'', JStr (str ''mcp_search''))]])])"
    by (simp add: sanitizeBody_def sanitize_field_def prefix_tool_def TOOL_PREFIX_def str_def)
  show ?thesis
    using sanitizeBody_keeps_unnamed_tool [OF 1, of _ 0 "[(str ''name'', JStr [])]"] 1
    by simp
qed

lemma strip_prefix_append: "strip_prefix p (p @ r) = Some r"
  by (induction p) auto

lemma strip_prefix_suffix: "strip_prefix p s = Some r \<Longrightarrow> suffix r s"
  by (induction p s rule: strip_prefix.induct) (auto split: if_splits intro: suffix_ConsI)

lemma match_name_suffix:
  assumes "match_name t = Some (g, r)"
  shows "suffix r t"
proof -
  obtain s1 s2 s3 where
    1: "strip_prefix (str ''\"name\"'') t = Some s1" and
    2: "strip_prefix (str '':'') (dropWhile is_space s1) = Some s2" and
    3: "strip_prefix (str ''\"mcp_'') (dropWhile is_space s2) = Some s3" and
    4: "r = tl (dropWhile (\<lambda>c. c \<noteq> 34) s3)"
    using assms by (auto simp: match_name_def Let_def split: option.splits if_splits)
  have "suffix r (dropWhile (\<lambda>c. c \<noteq> 34) s3)"
    unfolding 4 by (rule suffix_tl)
  also have "suffix \<dots> s3" by (rule suffix_dropWhile)
  also have "suffix s3 (dropWhile is_space s2)" by (rule strip_prefix_suffix [OF 3])
  also have "suffix \<dots> s2" by (rule suffix_dropWhile)
  also have "suffix s2 (dropWhile is_space s1)" by (rule strip_prefix_suffix [OF 2])
  also have "suffix \<dots> s1" by (rule suffix_dropWhile)
  also have "suffix s1 t" by (rule strip_prefix_suffix [OF 1])
  finally show ?thesis .
qed

lemma not_space_colon_quote: "\<not> is_space 58" "\<not> is_space 34"
  by (simp_all add: is_space_def)

lemma match_name_field:
  assumes "n \<noteq> []" and "34 \<notin> set n"
    and "\<forall>c\<in>set wsa. is_space c" and "\<forall>c\<in>set wsb. is_space c"
  shows "match_name (str ''\"name\"'' @ wsa @ str '':'' @ wsb @ str ''\"'' @ TOOL_PREFIX @ n @
                     str ''\"'' @ rest) = Some (n, rest)"
proof -
  have q: "str ''\"'' @ TOOL_PREFIX @ x = str ''\"mcp_'' @ x" for x
    by (simp add: TOOL_PREFIX_def str_def)
  have c: "str '':'' = [58]" and e: "str ''\"'' = [34]"
    by (simp_all add: str_def)
  have d1: "dropWhile is_space (wsa @ str '':'' @ x) = str '':'' @ x" for x
    using assms(3) not_space_colon_quote by (simp add: dropWhile_append2 c)
  have d2: "dropWhile is_space (wsb @ str ''\"mcp_'' @ x) = str ''\"mcp_'' @ x" for x
    using assms(4) not_space_colon_quote by (simp add: dropWhile_append2 str_def)
  have nq: "\<And>x. x \<in> set n \<Longrightarrow> x \<noteq> 34"
    using assms(2) by auto
  have t: "takeWhile (\<lambda>c. c \<noteq> 34) (n @ str ''\"'' @ rest) = n"
    using nq by (simp add: e takeWhile_append2)
  have d: "dropWhile (\<lambda>c. c \<noteq> 34) (n @ str ''\"'' @ rest) = 34 # rest"
    using nq by (simp add: e dropWhile_append2)
  show ?thesis
    unfolding match_name_def q
    by (simp only: strip_prefix_append d1 d2 t d option.case Let_def assms(1))
       simp
qed

lemma strip_tool_prefix_match:
  "match_name s = Some (g, r) \<Longrightarrow>
   strip_tool_prefix s = str ''\"name\": \"'' @ g @ str ''\"'' @ strip_tool_prefix r"
  by (cases s) (auto simp: match_name_def str_def)

lemma strip_tool_prefix_field:
  assumes "n \<noteq> []" and "34 \<notin> set n"
    and "\<forall>c\<in>set wsa. is_space c" and "\<forall>c\<in>set wsb. is_space c"
  shows "strip_tool_prefix (str ''\"name\"'' @ wsa @ str '':'' @ wsb @ str ''\"'' @ TOOL_PREFIX @ n @
                            str ''\"'' @ rest) =
         str ''\"name\": \"'' @ n @ str ''\"'' @ strip_tool_prefix rest"
  by (rule strip_tool_prefix_match [OF match_name_field [OF assms]])

lemma no_match_into_drop: "no_match_into pre s \<Longrightarrow> no_match_into (drop k pre) s"
proof (induction pre arbitrary: k)
  case Nil
  then show ?case by simp
next
  case (Cons c cs)
  then show ?case by (cases k) auto
qed

lemma strip_tool_prefix_append:
  "no_match_into pre s \<Longrightarrow> \<exists>out. strip_tool_prefix (pre @ s) = out @ strip_tool_prefix s"
proof (induction "length pre" arbitrary: pre rule: less_induct)
  case less
  show ?case
  proof (cases pre)
    case Nil
    then show ?thesis by simp
  next
    case (Cons c cs)
    have tail: "no_match_into cs s" using less.prems Cons by simp
    show ?thesis
    proof (cases "match_name (c # cs @ s)")
      case None
      obtain out where "strip_tool_prefix (cs @ s) = out @ strip_tool_prefix s"
        using less.hyps [of cs] tail Cons by auto
      then have "strip_tool_prefix (pre @ s) = (c # out) @ strip_tool_prefix s"
        using None Cons by simp
      then show ?thesis by blast
    next
      case (Some gr)
      obtain g r where gr: "gr = (g, r)" by (cases gr)
      have m: "match_name (pre @ s) = Some (g, r)" using Some gr Cons by simp
      have len: "length s \<le> length r" using less.prems Cons Some gr by simp
      have shorter: "length r < length (pre @ s)" by (rule match_name_shorter [OF m])
      obtain k where k: "pre @ s = k @ r"
        using match_name_suffix [OF m] by (auto simp: suffix_def)
      have kl: "length k \<le> length pre" and k0: "0 < length k"
        using len shorter arg_cong [OF k, of length] by auto
      have r: "r = drop (length k) pre @ s"
        using arg_cong [OF k, of "drop (length k)"] kl by simp
      have "no_match_into (drop (length k) pre) s"
        by (rule no_match_into_drop [OF less.prems])
      moreover have "length (drop (length k) pre) < length pre"
        using k0 Cons by simp
      ultimately obtain out where
        "strip_tool_prefix (drop (length k) pre @ s) = out @ strip_tool_prefix s"
        using less.hyps by blast
      then have "strip_tool_prefix (pre @ s) =
          (str ''\"name\": \"'' @ g @ str ''\"'' @ out) @ strip_tool_prefix s"
        using strip_tool_prefix_match [OF m] r by simp
      then show ?thesis by blast
    qed
  qed
qed

lemma sanitize_message_content:
  assumes "sanitize_message (JObj m) = Inr msg'"
    and "map_of m (str ''content'') = Some (JArr bs)"
  shows "\<exists>m' bs'. msg' = JObj m' \<and> map_of m' (str ''content'') = Some (JArr bs') \<and>
           map_err prefix_block bs = Inr bs'"
  using assms by (auto simp: sanitize_message_def update_conv' split: sum.splits)

text \<open>
  Claim C2, as amended. For every non-empty string \<open>n\<close>: a tool definition of \<open>tools\<close>
  named \<open>n\<close> has the name \<open>mcp_\<close> followed by \<open>n\<close> after \<open>sanitizeBody\<close>, and so has a
  \<open>tool_use\<close> content block named \<open>n\<close> in a message; and when \<open>n\<close> holds no double quote,
  the buffered response transform turns a field \<open>"name"\<close>, optional white space, a colon,
  optional white space, \<open>"mcp_n"\<close>, into \<open>"name": "n"\<close> and goes on with the text after it,
  provided no match of the pattern that starts earlier in the text runs into the field.
\<close>

theorem tool_name_round_trip:
  assumes "n \<noteq> []"
  shows "(sanitizeBody (JObj obj) = Inr body' \<and>
          map_of obj (str ''tools'') = Some (JArr ts) \<and> i < length ts \<and> ts ! i = JObj tool \<and>
          map_of tool (str ''name'') = Some (JStr n) \<longrightarrow>
            (\<exists>obj' ts'. body' = JObj obj' \<and> map_of obj' (str ''tools'') = Some (JArr ts') \<and>
               length ts' = length ts \<and>
               ts' ! i = JObj (AList.update (str ''name'') (JStr (TOOL_PREFIX @ n)) tool))) \<and>
         (sanitizeBody (JObj obj) = Inr body' \<and>
          map_of obj (str ''messages'') = Some (JArr ms) \<and> j < length ms \<and> ms ! j = JObj m \<and>
          map_of m (str ''content'') = Some (JArr bs) \<and> k < length bs \<and> bs ! k = JObj b \<and>
          map_of b (str ''type'') = Some (JStr (str ''tool_use'')) \<and>
          map_of b (str ''name'') = Some (JStr n) \<longrightarrow>
            (\<exists>obj' ms' m' bs'. body' = JObj obj' \<and>
               map_of obj' (str ''messages'') = Some (JArr ms') \<and> length ms' = length ms \<and>
               ms' ! j = JObj m' \<and> map_of m' (str ''content'') = Some (JArr bs') \<and>
               length bs' = length bs \<and>
               bs' ! k = JObj (AList.update (str ''name'') (JStr (TOOL_PREFIX @ n)) b))) \<and>
         (34 \<notin> set n \<and> (\<forall>c\<in>set wsa. is_space c) \<and> (\<forall>c\<in>set wsb. is_space c) \<and>
          no_match_into pre (str ''\"name\"'' @ wsa @ str '':'' @ wsb @ str ''\"'' @ TOOL_PREFIX @ n @
                             str ''\"'' @ rest) \<longrightarrow>
            (\<exists>out. strip_tool_prefix (pre @ str ''\"name\"'' @ wsa @ str '':'' @ wsb @ str ''\"'' @
                                       TOOL_PREFIX @ n @ str ''\"'' @ rest) =
                    out @ str ''\"name\": \"'' @ n @ str ''\"'' @ strip_tool_prefix rest))"
proof (intro conjI impI)
  assume h: "sanitizeBody (JObj obj) = Inr body' \<and>
          map_of obj (str ''tools'') = Some (JArr ts) \<and> i < length ts \<and> ts ! i = JObj tool \<and>
          map_of tool (str ''name'') = Some (JStr n)"
  then obtain obj' ts' where b: "body' = JObj obj'"
      and t: "map_of obj' (str ''tools'') = Some (JArr ts')"
      and me: "map_err prefix_tool ts = Inr ts'"
    using sanitizeBody_tools [of obj body' ts] by blast
  have "prefix_tool (ts ! i) = Inr (ts' ! i)"
    using map_err_nth [OF me] h by blast
  then have "ts' ! i = JObj (AList.update (str ''name'') (JStr (TOOL_PREFIX @ n)) tool)"
    using prefix_tool_named [of tool n] h assms by simp
  then show "\<exists>obj' ts'. body' = JObj obj' \<and> map_of obj' (str ''tools'') = Some (JArr ts') \<and>
               length ts' = length ts \<and>
               ts' ! i = JObj (AList.update (str ''name'') (JStr (TOOL_PREFIX @ n)) tool)"
    using b t map_err_length [OF me] by blast
next
  assume h: "sanitizeBody (JObj obj) = Inr body' \<and>
          map_of obj (str ''messages'') = Some (JArr ms) \<and> j < length ms \<and> ms ! j = JObj m \<and>
          map_of m (str ''content'') = Some (JArr bs) \<and> k < length bs \<and> bs ! k = JObj b \<and>
          map_of b (str ''type'') = Some (JStr (str ''tool_use'')) \<and>
          map_of b (str ''name'') = Some (JStr n)"
  then obtain obj' ms' where b: "body' = JObj obj'"
      and t: "map_of obj' (str ''messages'') = Some (JArr ms')"
      and me: "map_err sanitize_message ms = Inr ms'"
    using sanitizeBody_messages [of obj body' ms] by blast
  have "sanitize_message (JObj m) = Inr (ms' ! j)"
    using map_err_nth [OF me, of j] h by simp
  then obtain m' bs' where m': "ms' ! j = JObj m'"
      and c: "map_of m' (str ''content'') = Some (JArr bs')"
      and mb: "map_err prefix_block bs = Inr bs'"
    using sanitize_message_content [of m "ms' ! j" bs] h by blast
  have "prefix_block (bs ! k) = Inr (bs' ! k)"
    using map_err_nth [OF mb, of k] h by simp
  then have "bs' ! k = JObj (AList.update (str ''name'') (JStr (TOOL_PREFIX @ n)) b)"
    using prefix_block_named [of b n] h assms by simp
  then show "\<exists>obj' ms' m' bs'. body' = JObj obj' \<and>
               map_of obj' (str ''messages'') = Some (JArr ms') \<and> length ms' = length ms \<and>
               ms' ! j = JObj m' \<and> map_of m' (str ''content'') = Some (JArr bs') \<and>
               length bs' = length bs \<and>
               bs' ! k = JObj (AList.update (str ''name'') (JStr (TOOL_PREFIX @ n)) b)"
    using b t m' c map_err_length [OF me] map_err_length [OF mb] by blast
next
  let ?field = "str ''\"name\"'' @ wsa @ str '':'' @ wsb @ str ''\"'' @ TOOL_PREFIX @ n @ str ''\"''"
  assume h: "34 \<notin> set n \<and> (\<forall>c\<in>set wsa. is_space c) \<and> (\<forall>c\<in>set wsb. is_space c) \<and>
          no_match_into pre (str ''\"name\"'' @ wsa @ str '':'' @ wsb @ str ''\"'' @ TOOL_PREFIX @ n @
                             str ''\"'' @ rest)"
  then obtain out where "strip_tool_prefix (pre @ str ''\"name\"'' @ wsa @ str '':'' @ wsb @
        str ''\"'' @ TOOL_PREFIX @ n @ str ''\"'' @ rest) =
      out @ strip_tool_prefix (str ''\"name\"'' @ wsa @ str '':'' @ wsb @ str ''\"'' @ TOOL_PREFIX @ n @
        str ''\"'' @ rest)"
    using strip_tool_prefix_append by blast
  moreover have "strip_tool_prefix (str ''\"name\"'' @ wsa @ str '':'' @ wsb @ str ''\"'' @
        TOOL_PREFIX @ n @ str ''\"'' @ rest) =
      str ''\"name\": \"'' @ n @ str ''\"'' @ strip_tool_prefix rest"
    using strip_tool_prefix_field [OF assms] h by blast
  ultimately show "\<exists>out. strip_tool_prefix (pre @ str ''\"name\"'' @ wsa @ str '':'' @ wsb @
        str ''\"'' @ TOOL_PREFIX @ n @ str ''\"'' @ rest) =
      out @ str ''\"name\": \"'' @ n @ str ''\"'' @ strip_tool_prefix rest"
    by auto
qed

theorem tool_name_round_trip_witness:
  "sanitizeBody (JObj [(str ''tools'', JArr [JObj [(str ''name'', JStr (str ''search''))]]),
          (str ''messages'', JArr [JObj [(str ''role'', JStr (str ''assistant'')),
             (str ''content'', JArr [JObj [(str ''type'', JStr (str ''tool_use'')),
                                           (str ''name'', JStr (str ''search''))]])]])]) =
     Inr (JObj [(str ''tools'', JArr [JObj [(str ''name'', JStr (str ''mcp_search''))]]),
          (str ''messages'', JArr [JObj [(str ''role'', JStr (str ''assistant'')),
             (str ''content'', JArr [JObj [(str ''type'', JStr (str ''tool_use'')),
                                           (str ''name'', JStr (str ''mcp_search''))]])]])]) \<and>
   no_match_into (str ''{\"type\":\"tool_use\",'')
       (str ''\"name\"'' @ [] @ str '':'' @ [] @ str ''\"'' @ TOOL_PREFIX @ str ''search'' @
        str ''\"'' @ str ''}'') \<and>
   (\<exists>out. strip_tool_prefix (str ''{\"type\":\"tool_use\",'' @ str ''\"name\"'' @ [] @ str '':'' @ [] @
              str ''\"'' @ TOOL_PREFIX @ str ''search'' @ str ''\"'' @ str ''}'') =
           out @ str ''\"name\": \"'' @ str ''search'' @ str ''\"'' @ strip_tool_prefix (str ''}'')) \<and>
   strip_tool_prefix (str ''{\"type\":\"tool_use\",\"name\":\"mcp_search\"}'') =
      str ''{\"type\":\"tool_use\",\"name\": \"search\"}''"
proof -
  have ne: "str ''search'' \<noteq> []" by (simp add: str_def)
  have sp: "34 \<notin> set (str ''search'') \<and> (\<forall>c\<in>set []. is_space c) \<and> (\<forall>c\<in>set []. is_space c) \<and>
     no_match_into (str ''{\"type\":\"tool_use\",'')
       (str ''\"name\"'' @ [] @ str '':'' @ [] @ str ''\"'' @ TOOL_PREFIX @ str ''search'' @
        str ''\"'' @ str ''}'')"
    by (simp add: match_name_def str_def is_space_def TOOL_PREFIX_def)
  have sb: "sanitizeBody (JObj [(str ''tools'', JArr [JObj [(str ''name'', JStr (str ''search''))]]),
          (str ''messages'', JArr [JObj [(str ''role'', JStr (str ''assistant'')),
             (str ''content'', JArr [JObj [(str ''type'', JStr (str ''tool_use'')),
                                           (str ''name'', JStr (str ''search''))]])]])]) =
     Inr (JObj [(str ''tools'', JArr [JObj [(str ''name'', JStr (str ''mcp_search''))]]),
          (str ''messages'', JArr [JObj [(str ''role'', JStr (str ''assistant'')),
             (str ''content'', JArr [JObj [(str ''type'', JStr (str ''tool_use'')),
                                           (str ''name'', JStr (str ''mcp_search''))]])]])])"
    by (simp add: sanitizeBody_def sanitize_field_def prefix_tool_def sanitize_message_def
        prefix_block_def TOOL_PREFIX_def str_def)
  have ev: "strip_tool_prefix (str ''{\"type\":\"tool_use\",\"name\":\"mcp_search\"}'') =
      str ''{\"type\":\"tool_use\",\"name\": \"search\"}''"
    by (simp add: match_name_def str_def is_space_def)
  from tool_name_round_trip [OF ne, where pre = "str ''{\"type\":\"tool_use\",''" and wsa = "[]"
      and wsb = "[]" and rest = "str ''}''"] sp
  have "\<exists>out. strip_tool_prefix (str ''{\"type\":\"tool_use\",'' @ str ''\"name\"'' @ [] @ str '':'' @ [] @
              str ''\"'' @ TOOL_PREFIX @ str ''search'' @ str ''\"'' @ str ''}'') =
           out @ str ''\"name\": \"'' @ str ''search'' @ str ''\"'' @ strip_tool_prefix (str ''}'')"
    by blast
  with sb sp ev show ?thesis by blast
qed

text \<open>
  Claim C2 as stated fails for the empty name: \<open>sanitizeBody\<close> leaves it empty in \<open>tools\<close>
  and in a \<open>tool_use\<close> block, where prefix followed by the name would be \<open>mcp_\<close>; and the
  response transform leaves the field \<open>"name": "mcp_"\<close> as it is, since the pattern asks
  for at least one character after the prefix.
\<close>

theorem tool_name_round_trip_counterexample:
  "sanitizeBody (JObj [(str ''tools'', JArr [JObj [(str ''name'', JStr [])]]),
          (str ''messages'', JArr [JObj [(str ''role'', JStr (str ''assistant'')),
             (str ''content'', JArr [JObj [(str ''type'', JStr (str ''tool_use'')),
                                           (str ''name'', JStr [])]])]])]) =
     Inr (JObj [(str ''tools'', JArr [JObj [(str ''name'', JStr [])]]),
          (str ''messages'', JArr [JObj [(str ''role'', JStr (str ''assistant'')),
             (str ''content'', JArr [JObj [(str ''type'', JStr (str ''tool_use'')),
                                           (str ''name'', JStr [])]])]])]) \<and>
   TOOL_PREFIX @ [] \<noteq> [] \<and>
   strip_tool_prefix (str ''\"name\": \"mcp_\"'') = str ''\"name\": \"mcp_\"''"
  by (simp add: sanitizeBody_def sanitize_field_def prefix_tool_def sanitize_message_def
      prefix_block_def TOOL_PREFIX_def match_name_def is_space_def str_def)

section \<open>The streaming response transformer: claim C7\<close>

















































end
